theory Spec2Isabelle
  imports Main "HOL-Library.Word" "HOL-Library.Signed_Division"
begin

unbundle bit_operations_syntax

section \<open>The cgol sketch: data\<close>

text \<open>
  The program is one Arduino sketch, \<^verbatim>\<open>cgol.ino\<close>, written for a Seeed Xiao M0, where
  \<^verbatim>\<open>unsigned int\<close> and \<^verbatim>\<open>unsigned long\<close> have 32 bits. A grid such as \<^verbatim>\<open>a[n][x]\<close> is a
  list of \<open>n\<close> rows of \<open>x\<close> words; the one-dimensional copies (\<^verbatim>\<open>aTemp\<close>, \<^verbatim>\<open>r1\<close>, ...) are
  lists of \<open>n\<close> words. The counters \<^verbatim>\<open>g\<close>, \<^verbatim>\<open>counter\<close> and \<^verbatim>\<open>patternSel\<close> are C \<^verbatim>\<open>int\<close>s;
  they are modelled as integers and are faithful as long as fewer than \<open>2^31\<close>
  increments happen.
\<close>

type_synonym u8 = "8 word"
type_synonym u32 = "32 word"
type_synonym grid = "u32 list list"
type_synonym packed = "u32 list"
type_synonym display = "u8 list list"

definition x :: nat where "x = 2"
definition y :: nat where "y = 2"
definition s :: nat where "s = 8"
definition n :: nat where "n = y * s"
definition m :: nat where "m = x * s"

definition minSpeed :: int where "minSpeed = 42"
definition maxSpeed :: int where "maxSpeed = 2500"
definition lim :: int where "lim = 9"
definition periodicTimeout :: u32 where "periodicTimeout = 5000"

text \<open>The pre-loaded patterns of pages 1 to 3, written as in the sketch.\<close>

definition p1 :: grid where
  "p1 = [[0b00000000, 0b00000000],
         [0b00000000, 0b00000000],
         [0b00000000, 0b00000000],
         [0b00111000, 0b00000000],
         [0b00001000, 0b00000000],
         [0b00010000, 0b00000000],
         [0b00000000, 0b00000000],
         [0b00000000, 0b00000000],
         [0b00000000, 0b00000000],
         [0b00000000, 0b00000000],
         [0b00000000, 0b00000000],
         [0b00000000, 0b00000000],
         [0b00000000, 0b00000000],
         [0b00000000, 0b00000000],
         [0b00000000, 0b00000000],
         [0b00000000, 0b00000000]]"

definition p2 :: grid where
  "p2 = [[0b00000000, 0b00000000],
         [0b00000000, 0b00000000],
         [0b00000000, 0b00000000],
         [0b00000000, 0b00000000],
         [0b00000101, 0b10000000],
         [0b00001000, 0b00010000],
         [0b00011000, 0b10010000],
         [0b11010000, 0b01100000],
         [0b11010000, 0b01100000],
         [0b00011000, 0b10010000],
         [0b00001000, 0b00010000],
         [0b00000101, 0b10000000],
         [0b00000000, 0b00000000],
         [0b00000000, 0b00000000],
         [0b00000000, 0b00000000],
         [0b00000000, 0b00000000]]"

definition p3 :: grid where
  "p3 = [[0b00000000, 0b00000000],
         [0b00000000, 0b00000000],
         [0b00000000, 0b00000000],
         [0b00000000, 0b00000000],
         [0b00011100, 0b01110000],
         [0b00100010, 0b10001000],
         [0b00100010, 0b10001000],
         [0b01011110, 0b11110100],
         [0b01100000, 0b00001100],
         [0b00000000, 0b00000000],
         [0b00000000, 0b00000000],
         [0b00000110, 0b11000000],
         [0b00001010, 0b10100000],
         [0b00000100, 0b01000000],
         [0b00000000, 0b00000000],
         [0b00000000, 0b00000000]]"

text \<open>A zero-initialised global array, as C gives every global without an initialiser.\<close>

definition zero_grid :: grid where
  "zero_grid = replicate 16 [0, 0]"

definition zero_packed :: packed where
  "zero_packed = replicate 16 0"

definition zero_display :: display where
  "zero_display = replicate 4 (replicate 8 0)"

text \<open>
  The global variables of the sketch. \<open>disp\<close> and \<open>intensity\<close> stand for the four
  MAX7219 tiles behind \<^verbatim>\<open>mat\<close>: the row bytes last written with \<^verbatim>\<open>setRow\<close> and the level
  last written with \<^verbatim>\<open>setIntensity\<close>.
\<close>

record state =
  potVal :: int
  brightness :: int
  refreshRate :: int
  periodic :: bool
  current :: u32
  previous :: u32
  timeoutCurrent :: u32
  timeoutPrevious :: u32
  patternSel :: int
  counter :: int
  g :: int
  a :: grid
  aTemp :: packed
  aTemp2 :: packed
  mem :: grid
  r1 :: packed
  r2 :: packed
  r3 :: packed
  r4 :: packed
  r64 :: packed
  p4 :: grid
  p5 :: grid
  p6 :: grid
  disp :: display
  intensity :: "int list"

section \<open>Arduino core macros and library calls used by the sketch\<close>

text \<open>
  \<^verbatim>\<open>bitRead(value, bit)\<close> is \<^verbatim>\<open>(((value) >> (bit)) & 0x01)\<close>, \<^verbatim>\<open>bitSet\<close> is
  \<^verbatim>\<open>((value) |= (1UL << (bit)))\<close>, \<^verbatim>\<open>bitClear\<close> is \<^verbatim>\<open>((value) &= ~(1UL << (bit)))\<close> and
  \<^verbatim>\<open>bitWrite(value, bit, b)\<close> chooses between the two.
\<close>

definition bitRead :: "u32 \<Rightarrow> nat \<Rightarrow> u32" where
  "bitRead v b = (drop_bit b v) AND 1"

definition bitSet :: "u32 \<Rightarrow> nat \<Rightarrow> u32" where
  "bitSet v b = v OR (push_bit b 1)"

definition bitClear :: "u32 \<Rightarrow> nat \<Rightarrow> u32" where
  "bitClear v b = v AND NOT (push_bit b 1)"

definition bitWrite :: "u32 \<Rightarrow> nat \<Rightarrow> bool \<Rightarrow> u32" where
  "bitWrite v b bv = (if bv then bitSet v b else bitClear v b)"

text \<open>
  \<^verbatim>\<open>constrain(amt, low, high)\<close> is \<^verbatim>\<open>((amt)<(low)?(low):((amt)>(high)?(high):(amt)))\<close>;
  \<^verbatim>\<open>map\<close> is \<^verbatim>\<open>(x - in_min) * (out_max - out_min) / (in_max - in_min) + out_min\<close> on
  \<^verbatim>\<open>long\<close>, with C's division, which truncates towards zero.
\<close>

definition constrain :: "int \<Rightarrow> int \<Rightarrow> int \<Rightarrow> int" where
  "constrain amt low high = (if amt < low then low else if amt > high then high else amt)"

definition map_range :: "int \<Rightarrow> int \<Rightarrow> int \<Rightarrow> int \<Rightarrow> int \<Rightarrow> int" where
  "map_range v in_min in_max out_min out_max =
     ((v - in_min) * (out_max - out_min)) sdiv (in_max - in_min) + out_min"

text \<open>
  \<^verbatim>\<open>LedControl::setRow(addr, row, value)\<close> takes a \<^verbatim>\<open>byte\<close>, so the \<^verbatim>\<open>unsigned int\<close> of
  the grid is truncated to its low eight bits; the call does nothing for an address or a
  row that is out of range. Bit 7 of the byte is column 0 of the tile
  (\<^verbatim>\<open>setLed\<close> writes \<^verbatim>\<open>B10000000 >> column\<close>).
\<close>

definition setRow :: "nat \<Rightarrow> nat \<Rightarrow> u32 \<Rightarrow> display \<Rightarrow> display" where
  "setRow addr row v d =
     (if addr < length d \<and> row < 8 then d[addr := (d ! addr)[row := ucast v]] else d)"

definition tile_led :: "display \<Rightarrow> nat \<Rightarrow> nat \<Rightarrow> nat \<Rightarrow> bool" where
  "tile_led d addr row col = bit (d ! addr ! row) (7 - col)"

text \<open>
  \<^verbatim>\<open>LedControl::setIntensity(addr, intensity)\<close> ignores a level outside \<open>0..15\<close>.
\<close>

definition setIntensity :: "nat \<Rightarrow> int \<Rightarrow> int list \<Rightarrow> int list" where
  "setIntensity addr v is =
     (if addr < length is \<and> 0 \<le> v \<and> v < 16 then is[addr := v] else is)"

section \<open>Display drivers\<close>

text \<open>
  \<^verbatim>\<open>updateDisplay\<close>: for each \<open>i < s\<close>, four \<^verbatim>\<open>setRow\<close> calls in the order of the source.
\<close>

definition updateDisplay_row :: "grid \<Rightarrow> display \<Rightarrow> nat \<Rightarrow> display" where
  "updateDisplay_row u d i =
     setRow 3 i (u ! i ! 0)
       (setRow 2 i (u ! i ! 1)
         (setRow 1 i (u ! (i + 8) ! 0)
           (setRow 0 i (u ! (i + 8) ! 1) d)))"

definition updateDisplay :: "grid \<Rightarrow> display \<Rightarrow> display" where
  "updateDisplay u d = foldl (updateDisplay_row u) d [0..<s]"

text \<open>
  \<^verbatim>\<open>updateDisplayScan\<close> writes the top tiles (2 and 3), then the bottom tiles (0 and 1);
  the delays between the rows are not part of the model.
\<close>

definition updateDisplayScan_top :: "grid \<Rightarrow> display \<Rightarrow> nat \<Rightarrow> display" where
  "updateDisplayScan_top u d i = setRow 3 i (u ! i ! 0) (setRow 2 i (u ! i ! 1) d)"

definition updateDisplayScan_bottom :: "grid \<Rightarrow> display \<Rightarrow> nat \<Rightarrow> display" where
  "updateDisplayScan_bottom u d i =
     setRow 1 i (u ! (i + 8) ! 0) (setRow 0 i (u ! (i + 8) ! 1) d)"

definition updateDisplayScan :: "grid \<Rightarrow> display \<Rightarrow> display" where
  "updateDisplayScan u d =
     foldl (updateDisplayScan_bottom u) (foldl (updateDisplayScan_top u) d [0..<s]) [0..<s]"

section \<open>The generation step\<close>

text \<open>\<^verbatim>\<open>(a[i][0] << 8) + a[i][1]\<close>, the 16-bit row of \<^verbatim>\<open>rules\<close> and \<^verbatim>\<open>checkPeriodic\<close>.\<close>

definition pack_row :: "u32 list \<Rightarrow> u32" where
  "pack_row row = push_bit 8 (row ! 0) + row ! 1"

definition pack :: "grid \<Rightarrow> packed" where
  "pack u = map (\<lambda>i. pack_row (u ! i)) [0..<n]"

text \<open>The sum of the eight \<^verbatim>\<open>bitRead\<close>s, assigned to \<^verbatim>\<open>int total\<close>.\<close>

definition total_cnt :: "packed \<Rightarrow> nat \<Rightarrow> nat \<Rightarrow> int" where
  "total_cnt t i k = sint (
     bitRead (t ! ((i + (n - 1)) mod n)) ((k + (m - 1)) mod m)
     + bitRead (t ! i) ((k + (m - 1)) mod m)
     + bitRead (t ! ((i + 1) mod n)) ((k + (m - 1)) mod m)
     + bitRead (t ! ((i + (n - 1)) mod n)) k
     + bitRead (t ! ((i + 1) mod n)) k
     + bitRead (t ! ((i + (n - 1)) mod n)) ((k + 1) mod m)
     + bitRead (t ! i) ((k + 1) mod m)
     + bitRead (t ! ((i + 1) mod n)) ((k + 1) mod m))"

text \<open>The body of the inner loop: reads \<^verbatim>\<open>aTemp\<close>, writes one bit of \<^verbatim>\<open>aTemp2[i]\<close>.\<close>

definition rules_cell :: "packed \<Rightarrow> nat \<Rightarrow> packed \<Rightarrow> nat \<Rightarrow> packed" where
  "rules_cell t i t2 k =
     (if bitRead (t ! i) k = 1 then
        (if total_cnt t i k < 2 \<or> total_cnt t i k > 3 then t2[i := bitWrite (t2 ! i) k False] else t2)
      else
        (if total_cnt t i k = 3 then t2[i := bitWrite (t2 ! i) k True] else t2))"

definition rules_row :: "packed \<Rightarrow> packed \<Rightarrow> nat \<Rightarrow> packed" where
  "rules_row t t2 i = foldl (rules_cell t i) t2 [0..<m]"

definition rules_packed :: "packed \<Rightarrow> packed" where
  "rules_packed t = foldl (rules_row t) t [0..<n]"

text \<open>The last loop of \<^verbatim>\<open>rules\<close>: \<^verbatim>\<open>a[i][0] = aTemp2[i] >> 8; a[i][1] = aTemp2[i] & 255\<close>.\<close>

definition unpack :: "packed \<Rightarrow> grid" where
  "unpack t2 = map (\<lambda>i. [drop_bit 8 (t2 ! i), (t2 ! i) AND 255]) [0..<n]"

definition rules_grid :: "grid \<Rightarrow> grid" where
  "rules_grid u = unpack (rules_packed (pack u))"

definition rules :: "state \<Rightarrow> state" where
  "rules st =
     (let t = pack (a st);
          t2 = rules_packed t;
          u = unpack t2
      in st\<lparr>aTemp := t, aTemp2 := t2, a := u,
            disp := updateDisplayScan u (disp st), g := g st + 1\<rparr>)"


section \<open>Random grids and page dispatch\<close>

text \<open>
  \<^verbatim>\<open>generateData\<close> draws \<^verbatim>\<open>random(256)\<close> once per entry and stores it in \<^verbatim>\<open>a\<close> and in
  \<^verbatim>\<open>mem\<close>. The generator is an input of the model: \<open>rando i j\<close> is the \<^verbatim>\<open>long\<close> drawn at
  iteration \<open>(i, j)\<close>.
\<close>

type_synonym random_source = "nat \<Rightarrow> nat \<Rightarrow> int"

definition random_grid :: "random_source \<Rightarrow> grid" where
  "random_grid rando = map (\<lambda>i. map (\<lambda>j. word_of_int (rando i j)) [0..<x]) [0..<n]"

definition generateData :: "random_source \<Rightarrow> state \<Rightarrow> state" where
  "generateData rando st = st\<lparr>a := random_grid rando, mem := random_grid rando\<rparr>"

text \<open>\<^verbatim>\<open>patterns\<close>, branch by branch; pages 7 to 9 are commented out in the sketch.\<close>

definition patterns :: "random_source \<Rightarrow> state \<Rightarrow> state" where
  "patterns rando st =
     (if patternSel st = 0 then
        (let st1 = generateData rando (st\<lparr>periodic := False\<rparr>)
         in st1\<lparr>disp := updateDisplay (a st1) (disp st1), previous := current st1\<rparr>)
      else if patternSel st = 1 then
        st\<lparr>a := p1, disp := updateDisplay p1 (disp st), previous := current st\<rparr>
      else if patternSel st = 2 then
        st\<lparr>a := p2, disp := updateDisplay p2 (disp st), previous := current st\<rparr>
      else if patternSel st = 3 then
        st\<lparr>a := p3, disp := updateDisplay p3 (disp st), periodic := False,
           previous := current st\<rparr>
      else if patternSel st = 4 then
        st\<lparr>a := p4 st, disp := updateDisplay (p4 st) (disp st), periodic := False,
           previous := current st\<rparr>
      else if patternSel st = 5 then
        st\<lparr>a := p5 st, disp := updateDisplay (p5 st) (disp st), periodic := False,
           previous := current st\<rparr>
      else if patternSel st = 6 then
        st\<lparr>a := p6 st, disp := updateDisplay (p6 st) (disp st), periodic := False,
           previous := current st\<rparr>
      else st)"

section \<open>The periodicity check\<close>

text \<open>
  \<^verbatim>\<open>memmove\<close> and \<^verbatim>\<open>memcpy\<close> between arrays of one size are assignments, and
  \<^verbatim>\<open>memcmp(..) == 0\<close> is equality. \<^verbatim>\<open>g % 64\<close> is C's remainder.
\<close>

definition checkPeriodic :: "state \<Rightarrow> state" where
  "checkPeriodic st =
     (let st1 = st\<lparr>r4 := r3 st, r3 := r2 st, r2 := r1 st, r1 := pack (a st)\<rparr>;
          check1 = (r1 st1 = r2 st1);
          check2 = (r1 st1 = r3 st1);
          check3 = (r1 st1 = r4 st1);
          st2 = (if g st1 smod 64 = 0 then
                   (let st' = (if r1 st1 = r64 st1
                               then st1\<lparr>periodic := True, timeoutPrevious := timeoutCurrent st1\<rparr>
                               else st1)
                    in st'\<lparr>r64 := r1 st'\<rparr>)
                 else st1)
      in if check1 \<or> check2 \<or> check3
         then st2\<lparr>periodic := True, timeoutPrevious := timeoutCurrent st2\<rparr>
         else st2)"

section \<open>Inputs\<close>

text \<open>The three results of \<^verbatim>\<open>Rotary::process\<close> that \<^verbatim>\<open>pattern\<close> distinguishes.\<close>

datatype encoder_result = DIR_NONE | DIR_CW | DIR_CCW

definition pattern :: "encoder_result \<Rightarrow> random_source \<Rightarrow> state \<Rightarrow> state" where
  "pattern result rando st =
     (case result of
        DIR_CW \<Rightarrow>
          (let st1 = st\<lparr>patternSel := patternSel st + 1\<rparr>;
               st2 = st1\<lparr>patternSel := constrain (patternSel st1) 0 lim\<rparr>
           in patterns rando st2)
      | DIR_CCW \<Rightarrow>
          (let st1 = st\<lparr>patternSel := patternSel st - 1\<rparr>;
               st2 = st1\<lparr>patternSel := constrain (patternSel st1) 0 lim\<rparr>
           in patterns rando st2)
      | DIR_NONE \<Rightarrow> st)"

text \<open>
  \<^verbatim>\<open>readPot\<close>: \<open>reading\<close> is what \<^verbatim>\<open>analogRead(pot)\<close> returns and \<open>held\<close> what
  \<^verbatim>\<open>butt1.pressedFor(buttonLongPress)\<close> returns.
\<close>

definition readPot :: "int \<Rightarrow> bool \<Rightarrow> state \<Rightarrow> state" where
  "readPot reading held st =
     (let st1 = st\<lparr>potVal := reading\<rparr>;
          st2 = st1\<lparr>refreshRate := map_range (potVal st1) 970 10 minSpeed maxSpeed\<rparr>;
          st3 = st2\<lparr>refreshRate := constrain (refreshRate st2) 42 2500\<rparr>
      in if held then
           (let st4 = st3\<lparr>brightness := map_range (potVal st3) 0 970 0 15\<rparr>
            in st4\<lparr>intensity :=
                     foldl (\<lambda>is i. setIntensity i (brightness st4) is) (intensity st4) [0..<x * y]\<rparr>)
         else st3)"

text \<open>\<^verbatim>\<open>readButt\<close>: \<open>pressed\<close> is what \<^verbatim>\<open>butt1.wasPressed()\<close> returns.\<close>

definition readButt :: "bool \<Rightarrow> random_source \<Rightarrow> state \<Rightarrow> state" where
  "readButt pressed rando st =
     (if pressed then
        (if patternSel st = 0 then
           (let c = counter st smod 3 in
            if c = 0 then
              patterns rando (st\<lparr>p4 := mem st, counter := counter st + 1, patternSel := 4\<rparr>)
            else if c = 1 then
              patterns rando (st\<lparr>p5 := mem st, counter := counter st + 1, patternSel := 5\<rparr>)
            else if c = 2 then
              patterns rando (st\<lparr>p6 := mem st, counter := counter st + 1, patternSel := 6\<rparr>)
            else st)
         else patterns rando (st\<lparr>patternSel := 0\<rparr>))
      else st)"

section \<open>The main loop\<close>

text \<open>
  The body of \<^verbatim>\<open>if (current - previous >= refreshRate)\<close> in \<^verbatim>\<open>loop\<close>; \<open>now\<close> is what
  \<^verbatim>\<open>millis()\<close> returns for \<^verbatim>\<open>timeoutCurrent\<close>.
\<close>

definition tick :: "u32 \<Rightarrow> random_source \<Rightarrow> state \<Rightarrow> state" where
  "tick now rando st =
     (let st1 = rules st;
          st2 = st1\<lparr>previous := current st1\<rparr>;
          st3 = st2\<lparr>timeoutCurrent := now\<rparr>
      in if \<not> periodic st3 then checkPeriodic st3
         else if timeoutCurrent st3 - timeoutPrevious st3 \<ge> periodicTimeout
         then patterns rando st3
         else st3)"

text \<open>
  One pass of \<^verbatim>\<open>loop\<close>. The comparison is between an \<^verbatim>\<open>unsigned long\<close> and an \<^verbatim>\<open>int\<close>,
  so the \<^verbatim>\<open>int\<close> is converted.
\<close>

definition loop :: "int \<Rightarrow> bool \<Rightarrow> bool \<Rightarrow> u32 \<Rightarrow> u32 \<Rightarrow> random_source \<Rightarrow> state \<Rightarrow> state" where
  "loop reading held pressed now1 now2 rando st =
     (let st1 = readPot reading held st;
          st2 = readButt pressed rando st1;
          st3 = st2\<lparr>current := now1\<rparr>
      in if current st3 - previous st3 \<ge> word_of_int (refreshRate st3)
         then tick now2 rando st3
         else st3)"

text \<open>
  The globals as their initialisers leave them, and the state at the end of \<^verbatim>\<open>setup\<close>,
  where \<open>t0\<close> is what \<^verbatim>\<open>millis()\<close> returns there. The frames that \<^verbatim>\<open>rippleTest\<close> shows
  are all overwritten by the \<^verbatim>\<open>updateDisplay(a)\<close> that follows it.
\<close>

definition globals :: state where
  "globals = \<lparr>potVal = 0, brightness = 0, refreshRate = 100, periodic = False,
     current = 0, previous = 0, timeoutCurrent = 0, timeoutPrevious = 0,
     patternSel = 1, counter = 0, g = 0,
     a = zero_grid, aTemp = zero_packed, aTemp2 = zero_packed, mem = zero_grid,
     r1 = zero_packed, r2 = zero_packed, r3 = zero_packed, r4 = zero_packed,
     r64 = zero_packed, p4 = zero_grid, p5 = zero_grid, p6 = zero_grid,
     disp = zero_display, intensity = [0, 0, 0, 0]\<rparr>"

definition setup_sketch :: "u32 \<Rightarrow> state" where
  "setup_sketch t0 = globals\<lparr>a := p1, disp := updateDisplay p1 (disp globals),
     previous := t0, timeoutPrevious := t0\<rparr>"

text \<open>
  \<open>k\<close> simulation steps with no input in between: step \<open>i\<close> happens at time \<open>now i\<close>
  and draws from \<open>rando i\<close> if it generates a grid.
\<close>

fun run :: "(nat \<Rightarrow> u32) \<Rightarrow> (nat \<Rightarrow> random_source) \<Rightarrow> nat \<Rightarrow> state \<Rightarrow> state" where
  "run now rando 0 st = st"
| "run now rando (Suc k) st = tick (now k) (rando k) (run now rando k st)"

text \<open>A sequence of encoder interrupts, each with the random source it may draw from.\<close>

definition encoder_steps :: "(encoder_result \<times> random_source) list \<Rightarrow> state \<Rightarrow> state" where
  "encoder_steps evs st = foldl (\<lambda>st' (result, rando). pattern result rando st') st evs"

section \<open>Grids as the specification reads them\<close>

text \<open>
  A well-formed grid has \<open>n\<close> rows of \<open>x\<close> bytes. Column 0 is the most significant bit
  of the row: logical column \<open>c\<close> is bit \<open>7 - c mod 8\<close> of byte \<open>c div 8\<close>.
\<close>

definition wf_grid :: "grid \<Rightarrow> bool" where
  "wf_grid u \<longleftrightarrow> length u = n \<and> list_all (\<lambda>row. length row = x \<and> list_all (\<lambda>v. v < 256) row) u"

definition cell :: "grid \<Rightarrow> nat \<Rightarrow> nat \<Rightarrow> bool" where
  "cell u r c = bit (u ! r ! (c div 8)) (7 - c mod 8)"

text \<open>The number of live cells among the eight toroidal neighbours of \<open>(r, c)\<close>.\<close>

definition neighbours :: "grid \<Rightarrow> nat \<Rightarrow> nat \<Rightarrow> int" where
  "neighbours u r c =
     of_bool (cell u ((r + n - 1) mod n) ((c + m - 1) mod m))
     + of_bool (cell u ((r + n - 1) mod n) c)
     + of_bool (cell u ((r + n - 1) mod n) ((c + 1) mod m))
     + of_bool (cell u r ((c + m - 1) mod m))
     + of_bool (cell u r ((c + 1) mod m))
     + of_bool (cell u ((r + 1) mod n) ((c + m - 1) mod m))
     + of_bool (cell u ((r + 1) mod n) c)
     + of_bool (cell u ((r + 1) mod n) ((c + 1) mod m))"

text \<open>
  The rule: a live cell with two or three live neighbours stays live, a dead cell with
  exactly three becomes live, every other cell is dead.
\<close>

definition life :: "bool \<Rightarrow> int \<Rightarrow> bool" where
  "life alive cnt = (if alive then cnt = 2 \<or> cnt = 3 else cnt = 3)"

text \<open>A display of four tiles with eight rows each.\<close>

definition wf_display :: "display \<Rightarrow> bool" where
  "wf_display d \<longleftrightarrow> length d = 4 \<and> list_all (\<lambda>tile. length tile = 8) d"

section \<open>Sample inputs\<close>

text \<open>
  A generator that always draws 0, one that always draws 255, a grid whose only live
  cell is at row 0, column 0, and a blinker (three live cells in a row).
\<close>

definition rando_zero :: random_source where
  "rando_zero i j = 0"

definition rando_full :: random_source where
  "rando_full i j = 255"

definition single_cell :: grid where
  "single_cell = zero_grid[0 := [0b10000000, 0b00000000]]"

definition blinker :: grid where
  "blinker = zero_grid[4 := [0b00111000, 0b00000000]]"

definition page0 :: state where
  "page0 = patterns rando_full (globals\<lparr>patternSel := 0\<rparr>)"

definition clock :: "nat \<Rightarrow> u32" where
  "clock i = 100 * of_nat (Suc i)"

definition no_random :: "nat \<Rightarrow> random_source" where
  "no_random k = rando_zero"

section \<open>Translations of the torus\<close>

text \<open>
  Packed grids whose rows use the low 16 bits only, the rotation of such a row by one
  column towards bit 0, and the translation of a packed grid by one row up and one
  column towards bit 0, which is how the glider of page 1 travels. \<open>gen k\<close> is
  generation \<open>k\<close> of that glider.
\<close>

definition rows16 :: "packed \<Rightarrow> bool" where
  "rows16 t \<longleftrightarrow> length t = 16 \<and> list_all (\<lambda>w. w < 65536) t"

definition ror16 :: "u32 \<Rightarrow> u32" where
  "ror16 w = drop_bit 1 w OR push_bit 15 (w AND 1)"

definition glide :: "packed \<Rightarrow> packed" where
  "glide t = map ror16 (rotate1 t)"

definition gen :: "nat \<Rightarrow> packed" where
  "gen k = (rules_packed ^^ k) (pack p1)"

section \<open>The generation step computes the rule of Life\<close>

lemma bitRead_of_bool: "bitRead v b = of_bool (bit v b)"
  by (simp add: bitRead_def and_one_eq mod_2_eq_odd bit_iff_odd_drop_bit)

lemma bit_bitWrite: "b < 32 \<Longrightarrow> bit (bitWrite v b bv) j = (if j = b then bv else bit v j)"
  by (auto simp add: bitWrite_def bitSet_def bitClear_def bit_simps dest: bit_imp_le_length)

lemma sint_sum8: "sint (of_bool b1 + of_bool b2 + of_bool b3 + of_bool b4 + of_bool b5 + of_bool b6 + of_bool b7 + of_bool b8 :: u32)
  = of_bool b1 + of_bool b2 + of_bool b3 + of_bool b4 + of_bool b5 + of_bool b6 + of_bool b7 + of_bool b8"
  by simp

lemma total_cnt_of_bool: "total_cnt t i k = 
    of_bool (bit (t ! ((i + 15) mod 16)) ((k + 15) mod 16))
     + of_bool (bit (t ! i) ((k + 15) mod 16))
     + of_bool (bit (t ! ((i + 1) mod 16)) ((k + 15) mod 16))
     + of_bool (bit (t ! ((i + 15) mod 16)) k)
     + of_bool (bit (t ! ((i + 1) mod 16)) k)
     + of_bool (bit (t ! ((i + 15) mod 16)) ((k + 1) mod 16))
     + of_bool (bit (t ! i) ((k + 1) mod 16))
     + of_bool (bit (t ! ((i + 1) mod 16)) ((k + 1) mod 16))"
  unfolding total_cnt_def bitRead_of_bool sint_sum8 by (simp add: n_def m_def x_def y_def s_def)


lemma rules_cell_length: "length (rules_cell t i t2 k) = length t2"
  by (simp add: rules_cell_def)

lemma rules_cell_other: "i' \<noteq> i \<Longrightarrow> rules_cell t i t2 k ! i' = t2 ! i'"
  by (simp add: rules_cell_def)

lemma rules_cell_bit:
  "i < length t2 \<Longrightarrow> k < 16 \<Longrightarrow> bit (rules_cell t i t2 k ! i) j =
     (if j = k then (if bit (t ! i) k then (if total_cnt t i k < 2 \<or> total_cnt t i k > 3 then False else bit (t2 ! i) k)
                     else (if total_cnt t i k = 3 then True else bit (t2 ! i) k))
      else bit (t2 ! i) j)"
  by (simp add: rules_cell_def bitRead_of_bool bit_bitWrite)

lemma rules_row_aux:
  "K \<le> 16 \<Longrightarrow> i < length t2 \<Longrightarrow> t2 ! i = t ! i \<Longrightarrow>
   length (foldl (rules_cell t i) t2 [0..<K]) = length t2 \<and>
   (\<forall>i'. i' \<noteq> i \<longrightarrow> foldl (rules_cell t i) t2 [0..<K] ! i' = t2 ! i') \<and>
   (\<forall>j. bit (foldl (rules_cell t i) t2 [0..<K] ! i) j =
        (if j < K then life (bit (t ! i) j) (total_cnt t i j) else bit (t ! i) j))"
proof (induction K)
  case 0
  then show ?case by simp
next
  case (Suc K)
  then have IH: "length (foldl (rules_cell t i) t2 [0..<K]) = length t2"
    "\<And>i'. i' \<noteq> i \<Longrightarrow> foldl (rules_cell t i) t2 [0..<K] ! i' = t2 ! i'"
    "\<And>j. bit (foldl (rules_cell t i) t2 [0..<K] ! i) j =
        (if j < K then life (bit (t ! i) j) (total_cnt t i j) else bit (t ! i) j)"
    by simp_all
  have K: "K < 16" using Suc.prems by simp
  have il: "i < length (foldl (rules_cell t i) t2 [0..<K])" using IH(1) Suc.prems by simp
  show ?case
  proof (intro conjI allI impI)
    show "length (foldl (rules_cell t i) t2 [0..<Suc K]) = length t2"
      by (simp add: rules_cell_length IH(1))
  next
    fix i' assume "i' \<noteq> i"
    then show "foldl (rules_cell t i) t2 [0..<Suc K] ! i' = t2 ! i'"
      by (simp add: rules_cell_other IH(2))
  next
    fix j
    show "bit (foldl (rules_cell t i) t2 [0..<Suc K] ! i) j =
        (if j < Suc K then life (bit (t ! i) j) (total_cnt t i j) else bit (t ! i) j)"
      using IH(3) [of j] IH(3) [of K] K
      by (auto simp add: rules_cell_bit [OF il K] life_def less_Suc_eq)
  qed
qed


lemma rules_row_length: "i < length t2 \<Longrightarrow> t2 ! i = t ! i \<Longrightarrow> length (rules_row t t2 i) = length t2"
  using rules_row_aux [of 16 i t2 t] by (simp add: rules_row_def m_def x_def s_def)

lemma rules_row_other:
  "i < length t2 \<Longrightarrow> t2 ! i = t ! i \<Longrightarrow> i' \<noteq> i \<Longrightarrow> rules_row t t2 i ! i' = t2 ! i'"
  using rules_row_aux [of 16 i t2 t] by (simp add: rules_row_def m_def x_def s_def)

lemma rules_row_bit:
  "i < length t2 \<Longrightarrow> t2 ! i = t ! i \<Longrightarrow>
   bit (rules_row t t2 i ! i) j = (if j < 16 then life (bit (t ! i) j) (total_cnt t i j) else bit (t ! i) j)"
  using rules_row_aux [of 16 i t2 t] by (simp add: rules_row_def m_def x_def s_def)

lemma rules_rows_aux:
  "N \<le> length t \<Longrightarrow>
   length (foldl (rules_row t) t [0..<N]) = length t \<and>
   (\<forall>i. i \<ge> N \<longrightarrow> foldl (rules_row t) t [0..<N] ! i = t ! i) \<and>
   (\<forall>i j. i < N \<longrightarrow> bit (foldl (rules_row t) t [0..<N] ! i) j =
        (if j < 16 then life (bit (t ! i) j) (total_cnt t i j) else bit (t ! i) j))"
proof (induction N)
  case 0
  then show ?case by simp
next
  case (Suc N)
  let ?r = "foldl (rules_row t) t [0..<N]"
  from Suc have IH: "length ?r = length t"
    "\<And>i. i \<ge> N \<Longrightarrow> ?r ! i = t ! i"
    "\<And>i j. i < N \<Longrightarrow> bit (?r ! i) j =
        (if j < 16 then life (bit (t ! i) j) (total_cnt t i j) else bit (t ! i) j)"
    by simp_all
  have Nl: "N < length ?r" using IH(1) Suc.prems by simp
  have Neq: "?r ! N = t ! N" using IH(2) by simp
  show ?case
  proof (intro conjI allI impI)
    show "length (foldl (rules_row t) t [0..<Suc N]) = length t"
      by (simp add: rules_row_length [OF Nl Neq] IH(1))
  next
    fix i assume "Suc N \<le> i"
    then show "foldl (rules_row t) t [0..<Suc N] ! i = t ! i"
      by (simp add: rules_row_other [OF Nl Neq] IH(2))
  next
    fix i j assume "i < Suc N"
    then consider "i = N" | "i < N" by linarith
    then show "bit (foldl (rules_row t) t [0..<Suc N] ! i) j =
        (if j < 16 then life (bit (t ! i) j) (total_cnt t i j) else bit (t ! i) j)"
    proof cases
      case 1
      then show ?thesis by (simp add: rules_row_bit [OF Nl Neq])
    next
      case 2
      then show ?thesis by (simp add: rules_row_other [OF Nl Neq] IH(3))
    qed
  qed
qed

lemma rules_packed_length: "length t = 16 \<Longrightarrow> length (rules_packed t) = 16"
  using rules_rows_aux [of 16 t] by (simp add: rules_packed_def n_def y_def s_def)

lemma rules_packed_bit:
  "length t = 16 \<Longrightarrow> i < 16 \<Longrightarrow>
   bit (rules_packed t ! i) j = (if j < 16 then life (bit (t ! i) j) (total_cnt t i j) else bit (t ! i) j)"
  using rules_rows_aux [of 16 t] by (simp add: rules_packed_def n_def y_def s_def)



lemma dims: "n = 16" "m = 16" "x = 2" "y = 2" "s = 8"
  by (simp_all add: n_def m_def x_def y_def s_def)

lemma length_two: "length xs = 2 \<Longrightarrow> \<exists>hi lo. xs = [hi, lo]"
  by (cases xs; cases "tl xs") auto

lemma wf_grid_row:
  assumes "wf_grid u" "i < 16"
  obtains hi lo where "u ! i = [hi, lo]" "hi < 256" "lo < 256"
proof -
  from assms have len: "length (u ! i) = 2" and all: "list_all (\<lambda>v. v < 256) (u ! i)"
    by (simp_all add: wf_grid_def dims list_all_length)
  from length_two [OF len] obtain hi lo where e: "u ! i = [hi, lo]"
    by blast
  with all have "hi < 256" "lo < 256" by simp_all
  with e that show thesis by blast
qed

lemma word_less_bits:
  fixes w :: u32
  assumes "k < 32"
  shows "w < 2 ^ k \<longleftrightarrow> (\<forall>j. bit w j \<longrightarrow> j < k)"
proof
  assume "w < 2 ^ k"
  then have e: "w AND mask k = w" by (rule less_mask_eq)
  show "\<forall>j. bit w j \<longrightarrow> j < k"
  proof (intro allI impI)
    fix j assume "bit w j"
    then have "bit (w AND mask k) j" using e by simp
    then show "j < k" by (simp add: bit_simps)
  qed
next
  assume h: "\<forall>j. bit w j \<longrightarrow> j < k"
  have "w AND mask k = w"
    by (rule bit_eqI) (use h in \<open>auto simp add: bit_simps\<close>)
  then show "w < 2 ^ k"
    using assms by (simp add: mask_eq_iff_w2p word_size)
qed

lemma byte_bits: "(v :: u32) < 256 \<longleftrightarrow> (\<forall>j. bit v j \<longrightarrow> j < 8)"
  using word_less_bits [of 8 v] by simp

lemma row16_bits: "(v :: u32) < 65536 \<longleftrightarrow> (\<forall>j. bit v j \<longrightarrow> j < 16)"
  using word_less_bits [of 16 v] by simp

lemma bit_pack_row:
  assumes "hi < 256" "lo < 256"
  shows "bit (pack_row [hi, lo]) k = (if k < 8 then bit lo k else bit hi (k - 8))"
proof -
  have lo: "\<And>j. bit lo j \<Longrightarrow> j < 8" using assms by (simp add: byte_bits)
  have hi: "\<And>j. bit hi j \<Longrightarrow> j < 8" using assms by (simp add: byte_bits)
  have "push_bit 8 hi + lo = push_bit 8 hi OR lo"
    by (rule disjunctive_add) (auto simp add: bit_simps dest: lo)
  then show ?thesis
    using hi [of "k - 8"] by (auto simp add: pack_row_def bit_simps dest: lo)
qed

lemma pack_length: "length (pack u) = 16"
  by (simp add: pack_def dims)

lemma pack_nth: "i < 16 \<Longrightarrow> pack u ! i = pack_row (u ! i)"
  by (simp add: pack_def dims)

lemma bit_pack:
  assumes "wf_grid u" "i < 16"
  shows "bit (pack u ! i) k = (k < 16 \<and> cell u i (15 - k))"
proof -
  from assms obtain hi lo where r: "u ! i = [hi, lo]" and b: "hi < 256" "lo < 256"
    by (rule wf_grid_row)
  have hi: "\<And>j. bit hi j \<Longrightarrow> j < 8" and lo: "\<And>j. bit lo j \<Longrightarrow> j < 8"
    using b by (simp_all add: byte_bits)
  show ?thesis
  proof (cases "k < 16")
    case True
    then have "(15 - k) div 8 = (if k < 8 then 1 else 0)" "7 - (15 - k) mod 8 = (if k < 8 then k else k - 8)"
      by (auto simp add: div_if mod_if) 
    then show ?thesis using True
      by (simp add: pack_nth assms r bit_pack_row [OF b] cell_def)
  next
    case False
    then show ?thesis using hi [of "k - 8"]
      by (auto simp add: pack_nth assms r bit_pack_row [OF b])
  qed
qed

lemma unpack_length: "length (unpack t) = 16"
  by (simp add: unpack_def dims)

lemma and_255: "(w :: u32) AND 255 = take_bit 8 w"
  by (simp add: take_bit_eq_mask mask_eq_exp_minus_1)

lemma unpack_nth: "i < 16 \<Longrightarrow> unpack t ! i = [drop_bit 8 (t ! i), take_bit 8 (t ! i)]"
  by (simp add: unpack_def dims and_255)

lemma cell_unpack:
  assumes "r < 16" "c < 16"
  shows "cell (unpack t) r c = bit (t ! r) (15 - c)"
proof (cases "c < 8")
  case True
  then have "c div 8 = 0" "c mod 8 = c" "8 + (7 - c) = 15 - c" by simp_all
  then show ?thesis using assms
    by (simp add: cell_def unpack_nth bit_simps)
next
  case False
  with assms have "c div 8 = 1" "7 - c mod 8 = 15 - c" "15 - c < 8" by (auto simp add: div_if mod_if)
  then show ?thesis using assms
    by (simp add: cell_def unpack_nth bit_simps)
qed

lemma idx1:
  assumes "c < 16"
  shows "15 - (15 - c + 15) mod 16 = (c + 1) mod (16::nat)"
proof (cases "c = 15")
  case True
  then show ?thesis by simp
next
  case False
  with assms have c: "c < 15" by simp
  then have "15 - c + 15 = (14 - c) + 16" by simp
  then have "(15 - c + 15) mod 16 = (14 - c) mod 16" by (simp only: mod_add_self2)
  then show ?thesis using c by simp
qed

lemma idx2:
  assumes "c < 16"
  shows "15 - (15 - c + 1) mod 16 = (c + 15) mod (16::nat)"
proof (cases "c = 0")
  case True
  then show ?thesis by simp
next
  case False
  then have "c + 15 = (c - 1) + 16" by simp
  then have "(c + 15) mod 16 = (c - 1) mod 16" by (simp only: mod_add_self2)
  then show ?thesis using assms False by simp
qed

lemma total_cnt_neighbours:
  assumes "wf_grid u" "r < 16" "c < 16"
  shows "total_cnt (pack u) r (15 - c) = neighbours u r c"
proof -
  define k where "k = 15 - c"
  have k: "k < 16" "(k + 15) mod 16 < 16" "(k + 1) mod 16 < 16"
    by (simp_all add: k_def)
  have e1: "15 - (k + 15) mod 16 = (c + 1) mod 16"
    unfolding k_def by (rule idx1 [OF assms(3)])
  have e2: "15 - (k + 1) mod 16 = (c + 15) mod 16"
    unfolding k_def by (rule idx2 [OF assms(3)])
  have e3: "15 - k = c"
    unfolding k_def using assms(3) by simp
  note e = e1 e2 e3
  have rows: "(r + 15) mod 16 < 16" "(r + 1) mod 16 < 16" by simp_all
  note b = bit_pack [OF assms(1) rows(1)] bit_pack [OF assms(1) assms(2)]
    bit_pack [OF assms(1) rows(2)]
  define ul uc ur ml mr dl dc dr :: int where
    "ul = of_bool (cell u ((r + 15) mod 16) ((c + 15) mod 16))" and
    "uc = of_bool (cell u ((r + 15) mod 16) c)" and
    "ur = of_bool (cell u ((r + 15) mod 16) ((c + 1) mod 16))" and
    "ml = of_bool (cell u r ((c + 15) mod 16))" and
    "mr = of_bool (cell u r ((c + 1) mod 16))" and
    "dl = of_bool (cell u ((r + 1) mod 16) ((c + 15) mod 16))" and
    "dc = of_bool (cell u ((r + 1) mod 16) c)" and
    "dr = of_bool (cell u ((r + 1) mod 16) ((c + 1) mod 16))"
  note d = ul_def uc_def ur_def ml_def mr_def dl_def dc_def dr_def
  have T: "total_cnt (pack u) r k = ur + mr + dr + uc + dc + ul + ml + dl"
    by (simp only: total_cnt_of_bool b k e simp_thms d)
  have a: "r + 16 - 1 = r + 15" "c + 16 - 1 = c + 15" by simp_all
  have N: "neighbours u r c = ul + uc + ur + ml + mr + dl + dc + dr"
    by (simp only: neighbours_def dims a d)
  show ?thesis using T N by (simp add: k_def)
qed


lemma a_rules: "a (rules st) = rules_grid (a st)"
  by (simp add: rules_def rules_grid_def Let_def)

lemma g_rules: "g (rules st) = g st + 1"
  by (simp add: rules_def Let_def)

lemma cell_rules_grid:
  assumes "wf_grid u" "r < 16" "c < 16"
  shows "cell (rules_grid u) r c = life (cell u r c) (neighbours u r c)"
proof -
  have "cell (rules_grid u) r c = bit (rules_packed (pack u) ! r) (15 - c)"
    using assms by (simp add: rules_grid_def cell_unpack)
  also have "\<dots> = life (bit (pack u ! r) (15 - c)) (total_cnt (pack u) r (15 - c))"
  proof -
    have k: "15 - c < 16" by arith
    show ?thesis
      by (simp only: rules_packed_bit [OF pack_length assms(2)] k if_True)
  qed
  also have "\<dots> = life (cell u r c) (neighbours u r c)"
  proof -
    have k: "15 - c < 16" "15 - (15 - c) = c" using assms(3) by arith+
    show ?thesis
      by (simp only: bit_pack [OF assms(1,2)] total_cnt_neighbours [OF assms] k simp_thms)
  qed
  finally show ?thesis .
qed

lemma wf_grid_unpack:
  assumes "\<And>i. i < 16 \<Longrightarrow> t ! i < 65536"
  shows "wf_grid (unpack t)"
proof -
  have "drop_bit 8 (t ! i) < 256 \<and> take_bit 8 (t ! i) < 256" if "i < 16" for i
  proof -
    have "\<And>j. bit (t ! i) j \<Longrightarrow> j < 16"
      using assms [OF that] by (simp add: row16_bits)
    then show ?thesis
      by (fastforce simp add: byte_bits bit_simps)
  qed
  then show ?thesis
    by (auto simp add: wf_grid_def unpack_length dims list_all_length unpack_nth
        less_Suc_eq)
qed

lemma pack_row16:
  assumes "wf_grid u" "i < 16"
  shows "pack u ! i < 65536"
  using assms by (simp add: row16_bits bit_pack)

lemma rules_packed_row16:
  assumes "length t = 16" "\<And>i. i < 16 \<Longrightarrow> t ! i < 65536" "i < 16"
  shows "rules_packed t ! i < 65536"
proof -
  have "\<And>j. bit (t ! i) j \<Longrightarrow> j < 16"
    using assms(2) [OF assms(3)] by (simp add: row16_bits)
  then show ?thesis
    using assms(1,3) by (auto simp add: row16_bits rules_packed_bit)
qed

lemma wf_grid_rules_grid: "wf_grid u \<Longrightarrow> wf_grid (rules_grid u)"
  unfolding rules_grid_def
  by (rule wf_grid_unpack) (simp add: rules_packed_row16 pack_length pack_row16)

text \<open>
  Claim C1. For every well-formed 16x16 grid, the grid that \<^verbatim>\<open>rules\<close> leaves in \<^verbatim>\<open>a\<close> is
  again a 16x16 grid, and each of its cells is computed from the old grid alone: the
  cell at row \<open>r\<close>, column \<open>c\<close> is live exactly when the old cell was live and had two or
  three live cells among its eight toroidal neighbours, or was dead and had exactly three.
\<close>

theorem rules_life:
  assumes "wf_grid (a st)" "r < n" "c < m"
  shows "wf_grid (a (rules st)) \<and>
    (cell (a (rules st)) r c \<longleftrightarrow>
      (if cell (a st) r c then neighbours (a st) r c = 2 \<or> neighbours (a st) r c = 3
       else neighbours (a st) r c = 3))"
  using assms cell_rules_grid [of "a st" r c]
  by (simp add: a_rules wf_grid_rules_grid dims life_def)

lemma wf_p1: "wf_grid p1"
  by (simp add: wf_grid_def p1_def dims)

theorem rules_life_witness:
  "wf_grid (a (setup_sketch 0)) \<and> 2 < n \<and> 3 < m \<and> \<not> cell (a (setup_sketch 0)) 2 3 \<and>
   neighbours (a (setup_sketch 0)) 2 3 = 3 \<and> cell (a (rules (setup_sketch 0))) 2 3 \<and>
   wf_grid (a (rules (setup_sketch 0)))"
proof -
  have u: "a (setup_sketch 0) = p1" by (simp add: setup_sketch_def)
  have h: "wf_grid (a (setup_sketch 0))" "2 < n" "3 < m"
    by (simp_all add: u wf_p1 dims)
  have c: "\<not> cell p1 2 3" by (simp add: cell_def p1_def)
  have nb: "neighbours p1 2 3 = 3" by (simp add: neighbours_def cell_def p1_def dims)
  show ?thesis
    using rules_life [OF h] h c nb by (simp add: u)
qed

lemma zero_packed_nth: "i < 16 \<Longrightarrow> zero_packed ! i = 0"
  by (simp add: zero_packed_def)

lemma pack_zero: "pack zero_grid = zero_packed"
  by (rule nth_equalityI) (simp_all add: pack_length zero_packed_def pack_nth zero_grid_def pack_row_def)

lemma unpack_zero: "unpack zero_packed = zero_grid"
  by (rule nth_equalityI) (simp_all add: unpack_length zero_packed_def unpack_nth zero_grid_def)

lemma rules_packed_zero: "rules_packed zero_packed = zero_packed"
proof (rule nth_equalityI)
  show "length (rules_packed zero_packed) = length zero_packed"
    by (simp add: rules_packed_length zero_packed_def)
next
  fix i assume "i < length (rules_packed zero_packed)"
  then have i: "i < 16" by (simp add: rules_packed_length zero_packed_def)
  have "rules_packed zero_packed ! i = 0"
    by (rule bit_eqI)
      (simp add: rules_packed_bit i zero_packed_def total_cnt_of_bool life_def)
  then show "rules_packed zero_packed ! i = zero_packed ! i"
    using i by (simp add: zero_packed_nth)
qed

text \<open>
  Claim C9. The generation step applied to the all-dead grid returns the all-dead grid.
\<close>

theorem rules_all_dead: "a (rules (st\<lparr>a := zero_grid\<rparr>)) = zero_grid"
  by (simp add: a_rules rules_grid_def pack_zero rules_packed_zero unpack_zero)

section \<open>The page selector\<close>

lemma patternSel_patterns: "patternSel (patterns rando st) = patternSel st"
  by (simp add: patterns_def generateData_def Let_def)

lemma patternSel_pattern:
  "patternSel (pattern result rando st) =
     (case result of DIR_CW \<Rightarrow> constrain (patternSel st + 1) 0 lim
      | DIR_CCW \<Rightarrow> constrain (patternSel st - 1) 0 lim
      | DIR_NONE \<Rightarrow> patternSel st)"
  by (simp add: pattern_def patternSel_patterns Let_def split: encoder_result.split)

lemma constrain_clamp: "lo \<le> hi \<Longrightarrow> constrain v lo hi = max lo (min hi v)"
  by (simp add: constrain_def)

lemma pattern_in_range:
  assumes "0 \<le> patternSel st" "patternSel st \<le> 9"
  shows "0 \<le> patternSel (pattern result rando st) \<and> patternSel (pattern result rando st) \<le> 9"
  using assms by (cases result) (simp_all add: patternSel_pattern constrain_def lim_def)

lemma encoder_steps_Nil: "encoder_steps [] st = st"
  by (simp add: encoder_steps_def)

lemma encoder_steps_snoc:
  "encoder_steps (evs @ [(result, rando)]) st = pattern result rando (encoder_steps evs st)"
  by (simp add: encoder_steps_def)

lemma encoder_steps_in_range:
  assumes "0 \<le> patternSel st" "patternSel st \<le> 9"
  shows "0 \<le> patternSel (encoder_steps evs st) \<and> patternSel (encoder_steps evs st) \<le> 9"
proof (induction evs rule: rev_induct)
  case Nil
  then show ?case using assms by (simp add: encoder_steps_Nil)
next
  case (snoc ev evs)
  obtain result rando where ev: "ev = (result, rando)" by (cases ev)
  show ?case
    unfolding ev encoder_steps_snoc using snoc by (intro pattern_in_range) simp_all
qed

lemma encoder_steps_cw:
  "patternSel (encoder_steps (replicate k (DIR_CW, rando)) st) =
     (if k = 0 then patternSel st else constrain (patternSel (encoder_steps (replicate (k - 1) (DIR_CW, rando)) st) + 1) 0 lim)"
proof (cases k)
  case 0
  then show ?thesis by (simp add: encoder_steps_Nil)
next
  case (Suc j)
  have "replicate (Suc j) (DIR_CW, rando) = replicate j (DIR_CW, rando) @ [(DIR_CW, rando)]"
    by (simp add: replicate_append_same)
  then show ?thesis
    using Suc by (simp add: encoder_steps_snoc patternSel_pattern del: replicate_Suc)
qed

lemma ten_cw:
  assumes "patternSel st = 0"
  shows "patternSel (encoder_steps (replicate 10 (DIR_CW, rando)) st) = 9"
proof -
  have step: "\<And>k. patternSel (encoder_steps (replicate (Suc k) (DIR_CW, rando)) st) =
      constrain (patternSel (encoder_steps (replicate k (DIR_CW, rando)) st) + 1) 0 lim"
    using encoder_steps_cw [of "Suc _" rando st] by simp
  have z: "patternSel (encoder_steps (replicate 0 (DIR_CW, rando)) st) = 0"
    using assms by (simp add: encoder_steps_Nil)
  have "(10::nat) = Suc (Suc (Suc (Suc (Suc (Suc (Suc (Suc (Suc (Suc 0)))))))))" by simp
  then show ?thesis
    by (simp only: step z) (simp add: constrain_def lim_def)
qed

text \<open>
  Claim C7. From any page in \<open>0..9\<close>, a clockwise step sets the page to
  \<open>clamp (page + 1) 0 9\<close> and a counterclockwise step to \<open>clamp (page - 1) 0 9\<close>; after
  any sequence of encoder events the page is still in \<open>0..9\<close>, and ten clockwise steps
  from page 0 end at page 9.
\<close>

theorem encoder_page_clamped:
  assumes "0 \<le> patternSel st" "patternSel st \<le> 9"
  shows "patternSel (pattern DIR_CW rando st) = max 0 (min 9 (patternSel st + 1)) \<and>
    patternSel (pattern DIR_CCW rando st) = max 0 (min 9 (patternSel st - 1)) \<and>
    0 \<le> patternSel (encoder_steps evs st) \<and> patternSel (encoder_steps evs st) \<le> 9 \<and>
    (patternSel st = 0 \<longrightarrow>
       patternSel (encoder_steps (replicate 10 (DIR_CW, rando)) st) = 9)"
proof -
  have "patternSel (pattern DIR_CW rando st) = max 0 (min 9 (patternSel st + 1))"
    by (simp add: patternSel_pattern constrain_def lim_def)
  moreover have "patternSel (pattern DIR_CCW rando st) = max 0 (min 9 (patternSel st - 1))"
    by (simp add: patternSel_pattern constrain_def lim_def)
  moreover note encoder_steps_in_range [OF assms, of evs]
  moreover have "patternSel st = 0 \<longrightarrow>
       patternSel (encoder_steps (replicate 10 (DIR_CW, rando)) st) = 9"
    by (simp add: ten_cw)
  ultimately show ?thesis by blast
qed

text \<open>
  The claim at page 0 of the initial globals.
\<close>

theorem encoder_page_clamped_witness:
  "0 \<le> patternSel (globals\<lparr>patternSel := 0\<rparr>) \<and> patternSel (globals\<lparr>patternSel := 0\<rparr>) \<le> 9 \<and>
   patternSel (pattern DIR_CW rando_zero (globals\<lparr>patternSel := 0\<rparr>)) = 1 \<and>
   patternSel (pattern DIR_CCW rando_zero (globals\<lparr>patternSel := 0\<rparr>)) = 0 \<and>
   patternSel (encoder_steps (replicate 10 (DIR_CW, rando_zero)) (globals\<lparr>patternSel := 0\<rparr>)) = 9"
  using encoder_page_clamped [of "globals\<lparr>patternSel := 0\<rparr>" rando_zero "[]"]
  by simp

section \<open>Page dispatch and the settled flag\<close>

lemma periodic_patterns:
  "periodic (patterns rando st) =
     (if patternSel st = 0 \<or> patternSel st = 3 \<or> patternSel st = 4 \<or> patternSel st = 5
         \<or> patternSel st = 6 then False else periodic st)"
  by (simp add: patterns_def generateData_def Let_def)

lemma patterns_inert:
  assumes "patternSel st < 0 \<or> 6 < patternSel st"
  shows "patterns rando st = st"
proof -
  from assms have "patternSel st \<noteq> 0" "patternSel st \<noteq> 1" "patternSel st \<noteq> 2"
    "patternSel st \<noteq> 3" "patternSel st \<noteq> 4" "patternSel st \<noteq> 5" "patternSel st \<noteq> 6"
    by linarith+
  then show ?thesis by (simp add: patterns_def)
qed

text \<open>
  Claim C3 as stated fails: with the settled flag set, a dispatch to page 1 leaves it
  set, and so does a dispatch to page 7.
\<close>

theorem patterns_settled_counterexample:
  "periodic (patterns rando_zero (globals\<lparr>periodic := True\<rparr>)) \<and>
   patternSel (globals\<lparr>periodic := True\<rparr>) = 1 \<and>
   periodic (patterns rando_zero (globals\<lparr>periodic := True, patternSel := 7\<rparr>))"
  by (simp add: periodic_patterns globals_def)

text \<open>
  Claim C3, amended. A dispatch to page 0, 3, 4, 5 or 6 leaves the settled flag false;
  a dispatch to page 7, 8 or 9 changes nothing at all. (Pages 1 and 2 are left out.)
\<close>

theorem patterns_resets_settled:
  "(patternSel st = 0 \<or> patternSel st = 3 \<or> patternSel st = 4 \<or> patternSel st = 5
      \<or> patternSel st = 6 \<longrightarrow> \<not> periodic (patterns rando st)) \<and>
   (patternSel st = 7 \<or> patternSel st = 8 \<or> patternSel st = 9 \<longrightarrow> patterns rando st = st)"
proof -
  have "patterns rando st = st" if "patternSel st = 7 \<or> patternSel st = 8 \<or> patternSel st = 9"
    using that by (intro patterns_inert) linarith
  then show ?thesis by (simp add: periodic_patterns)
qed

text \<open>
  The amended claim at page 3 and at page 7, starting with the flag set.
\<close>

theorem patterns_resets_settled_witness:
  "\<not> periodic (patterns rando_zero (globals\<lparr>periodic := True, patternSel := 3\<rparr>)) \<and>
   patterns rando_zero (globals\<lparr>periodic := True, patternSel := 7\<rparr>)
     = globals\<lparr>periodic := True, patternSel := 7\<rparr>"
  using patterns_resets_settled [of "globals\<lparr>periodic := True, patternSel := 3\<rparr>" rando_zero]
    patterns_resets_settled [of "globals\<lparr>periodic := True, patternSel := 7\<rparr>" rando_zero]
  by simp

lemma patterns_detector:
  "r1 (patterns rando st) = r1 st" "r2 (patterns rando st) = r2 st"
  "r3 (patterns rando st) = r3 st" "r4 (patterns rando st) = r4 st"
  "r64 (patterns rando st) = r64 st" "g (patterns rando st) = g st"
  by (simp_all add: patterns_def generateData_def Let_def)


lemma rules_detector:
  "r1 (rules st) = r1 st" "r2 (rules st) = r2 st" "r3 (rules st) = r3 st"
  "r4 (rules st) = r4 st" "r64 (rules st) = r64 st" "periodic (rules st) = periodic st"
  "patternSel (rules st) = patternSel st"
  by (simp_all add: rules_def Let_def)

lemma checkPeriodic_ring:
  "r1 (checkPeriodic st) = pack (a st)" "r2 (checkPeriodic st) = r1 st"
  "r3 (checkPeriodic st) = r2 st" "r4 (checkPeriodic st) = r3 st"
  "a (checkPeriodic st) = a st" "g (checkPeriodic st) = g st"
  "patternSel (checkPeriodic st) = patternSel st"
  by (simp_all add: checkPeriodic_def Let_def)

lemma checkPeriodic_r64:
  "r64 (checkPeriodic st) = (if g st smod 64 = 0 then pack (a st) else r64 st)"
  by (simp add: checkPeriodic_def Let_def)

lemma checkPeriodic_periodic:
  "periodic (checkPeriodic st) \<longleftrightarrow>
     periodic st \<or> pack (a st) = r1 st \<or> pack (a st) = r2 st \<or> pack (a st) = r3 st
     \<or> (g st smod 64 = 0 \<and> pack (a st) = r64 st)"
  by (auto simp add: checkPeriodic_def Let_def)

lemma tick_unsettled:
  "\<not> periodic st \<Longrightarrow>
   tick now rando st = checkPeriodic ((rules st)\<lparr>previous := current (rules st), timeoutCurrent := now\<rparr>)"
  by (simp add: tick_def Let_def rules_detector)

lemma tick_settled:
  "periodic st \<Longrightarrow> periodic (tick now rando st) \<or> patternSel st \<in> {0, 3, 4, 5, 6}"
  by (auto simp add: tick_def Let_def rules_detector periodic_patterns)

text \<open>
  Claim C10. A page dispatch leaves \<^verbatim>\<open>r1\<close> to \<^verbatim>\<open>r4\<close>, \<^verbatim>\<open>r64\<close> and \<^verbatim>\<open>g\<close> unchanged and can only
  clear the settled flag. So the first simulation step after a new random grid was
  generated on page 0 shifts the old \<^verbatim>\<open>r1\<close>, \<^verbatim>\<open>r2\<close>, \<^verbatim>\<open>r3\<close> into \<^verbatim>\<open>r2\<close>, \<^verbatim>\<open>r3\<close>, \<^verbatim>\<open>r4\<close>
  and sets the flag exactly when the new generation equals one of them, or equals the
  old \<^verbatim>\<open>r64\<close> at a generation that is a multiple of 64.
\<close>

theorem patterns_keeps_history:
  "r1 (patterns rando st) = r1 st \<and> r2 (patterns rando st) = r2 st \<and>
   r3 (patterns rando st) = r3 st \<and> r4 (patterns rando st) = r4 st \<and>
   r64 (patterns rando st) = r64 st \<and> g (patterns rando st) = g st \<and>
   (periodic (patterns rando st) \<longrightarrow> periodic st) \<and>
   (patternSel st = 0 \<longrightarrow>
     r1 (tick now rando' (patterns rando st)) = pack (rules_grid (random_grid rando)) \<and>
     r2 (tick now rando' (patterns rando st)) = r1 st \<and>
     r3 (tick now rando' (patterns rando st)) = r2 st \<and>
     r4 (tick now rando' (patterns rando st)) = r3 st \<and>
     (periodic (tick now rando' (patterns rando st)) \<longleftrightarrow>
        pack (rules_grid (random_grid rando)) = r1 st \<or>
        pack (rules_grid (random_grid rando)) = r2 st \<or>
        pack (rules_grid (random_grid rando)) = r3 st \<or>
        ((g st + 1) smod 64 = 0 \<and> pack (rules_grid (random_grid rando)) = r64 st)))"
proof -
  have frame: "r1 (patterns rando st) = r1 st \<and> r2 (patterns rando st) = r2 st \<and>
   r3 (patterns rando st) = r3 st \<and> r4 (patterns rando st) = r4 st \<and>
   r64 (patterns rando st) = r64 st \<and> g (patterns rando st) = g st"
    by (simp add: patterns_detector)
  have flag: "periodic (patterns rando st) \<longrightarrow> periodic st"
    by (simp add: periodic_patterns)
  have after: "r1 (tick now rando' (patterns rando st)) = pack (rules_grid (random_grid rando)) \<and>
     r2 (tick now rando' (patterns rando st)) = r1 st \<and>
     r3 (tick now rando' (patterns rando st)) = r2 st \<and>
     r4 (tick now rando' (patterns rando st)) = r3 st \<and>
     (periodic (tick now rando' (patterns rando st)) \<longleftrightarrow>
        pack (rules_grid (random_grid rando)) = r1 st \<or>
        pack (rules_grid (random_grid rando)) = r2 st \<or>
        pack (rules_grid (random_grid rando)) = r3 st \<or>
        ((g st + 1) smod 64 = 0 \<and> pack (rules_grid (random_grid rando)) = r64 st))"
    if p0: "patternSel st = 0"
  proof -
    have u: "\<not> periodic (patterns rando st)" using p0 by (simp add: periodic_patterns)
    have ag: "a (patterns rando st) = random_grid rando"
      using p0 by (simp add: patterns_def generateData_def Let_def)
    show ?thesis
      unfolding tick_unsettled [OF u]
      by (simp add: checkPeriodic_ring checkPeriodic_periodic rules_detector a_rules g_rules
          ag patterns_detector u)
  qed
  from frame flag after show ?thesis by blast
qed


lemma random_grid_zero: "random_grid rando_zero = zero_grid"
  by (simp add: random_grid_def rando_zero_def zero_grid_def n_def x_def y_def s_def upt_rec replicate_Suc [symmetric] numeral_eq_Suc)


lemma rules_grid_zero: "rules_grid zero_grid = zero_grid"
  by (simp add: rules_grid_def pack_zero rules_packed_zero unpack_zero)

text \<open>
  With the all-zero history of the initial globals, an all-dead random grid is flagged
  at its first step; a dispatch to page 1 leaves a set flag set.
\<close>

theorem patterns_keeps_history_witness:
  "patternSel (globals\<lparr>patternSel := 0\<rparr>) = 0 \<and>
   r2 (tick 0 rando_zero (patterns rando_zero (globals\<lparr>patternSel := 0\<rparr>))) = zero_packed \<and>
   periodic (tick 0 rando_zero (patterns rando_zero (globals\<lparr>patternSel := 0\<rparr>))) \<and>
   periodic (patterns rando_zero (globals\<lparr>periodic := True\<rparr>)) \<and>
   periodic (globals\<lparr>periodic := True\<rparr>)"
proof -
  have z: "pack (rules_grid (random_grid rando_zero)) = zero_packed"
    by (simp add: random_grid_zero rules_grid_zero pack_zero)
  have r: "r1 (globals\<lparr>patternSel := 0\<rparr>) = zero_packed"
    by (simp add: globals_def)
  have p: "periodic (patterns rando_zero (globals\<lparr>periodic := True\<rparr>))"
    by (simp add: periodic_patterns globals_def)
  show ?thesis
    using patterns_keeps_history [of rando_zero "globals\<lparr>patternSel := 0\<rparr>" 0 rando_zero]
      patterns_keeps_history [of rando_zero "globals\<lparr>periodic := True\<rparr>" 0 rando_zero] p
    by (simp add: z r)
qed

section \<open>The button\<close>

lemma smod3_nonneg: "0 \<le> (k::int) \<Longrightarrow> k smod 3 = k mod 3"
  by (cases "k = 0") (simp_all add: smod_int_alt_def)

lemma patterns_slots:
  "p4 (patterns rando st) = p4 st" "p5 (patterns rando st) = p5 st"
  "p6 (patterns rando st) = p6 st" "counter (patterns rando st) = counter st"
  by (simp_all add: patterns_def generateData_def Let_def)

lemma patterns_mem:
  "mem (patterns rando st) = (if patternSel st = 0 then random_grid rando else mem st)"
  by (simp add: patterns_def generateData_def Let_def)

lemma patterns_a_page0: "patternSel st = 0 \<Longrightarrow> a (patterns rando st) = random_grid rando"
  by (simp add: patterns_def generateData_def Let_def)

lemma patterns_a_slots:
  "patternSel st = 4 \<Longrightarrow> a (patterns rando st) = p4 st"
  "patternSel st = 5 \<Longrightarrow> a (patterns rando st) = p5 st"
  "patternSel st = 6 \<Longrightarrow> a (patterns rando st) = p6 st"
  by (simp_all add: patterns_def)

lemma readButt_save:
  assumes "patternSel st = 0" "0 \<le> counter st"
  shows "readButt True rando st =
    (if counter st mod 3 = 0 then
       patterns rando (st\<lparr>p4 := mem st, counter := counter st + 1, patternSel := 4\<rparr>)
     else if counter st mod 3 = 1 then
       patterns rando (st\<lparr>p5 := mem st, counter := counter st + 1, patternSel := 5\<rparr>)
     else patterns rando (st\<lparr>p6 := mem st, counter := counter st + 1, patternSel := 6\<rparr>))"
proof -
  have "counter st mod 3 = 0 \<or> counter st mod 3 = 1 \<or> counter st mod 3 = 2"
    by presburger
  then show ?thesis
    using assms by (auto simp add: readButt_def Let_def smod3_nonneg)
qed

lemma readButt_new:
  "patternSel st \<noteq> 0 \<Longrightarrow> readButt True rando st = patterns rando (st\<lparr>patternSel := 0\<rparr>)"
  by (simp add: readButt_def)

lemma press_page0:
  assumes "patternSel st = 0" "0 \<le> counter st"
  shows "patternSel (readButt True rando st) = 4 + counter st mod 3"
    and "counter (readButt True rando st) = counter st + 1"
    and "a (readButt True rando st) = mem st"
    and "mem (readButt True rando st) = mem st"
    and "p4 (readButt True rando st) = (if counter st mod 3 = 0 then mem st else p4 st)"
    and "p5 (readButt True rando st) = (if counter st mod 3 = 1 then mem st else p5 st)"
    and "p6 (readButt True rando st) = (if counter st mod 3 = 2 then mem st else p6 st)"
proof -
  have c: "counter st mod 3 = 0 \<or> counter st mod 3 = 1 \<or> counter st mod 3 = 2"
    by presburger
  note s = readButt_save [OF assms] patternSel_patterns patterns_slots patterns_mem
    patterns_a_slots
  show "patternSel (readButt True rando st) = 4 + counter st mod 3"
    using c by (auto simp add: s)
  show "counter (readButt True rando st) = counter st + 1"
    by (simp add: s)
  show "a (readButt True rando st) = mem st"
    by (simp add: s)
  show "mem (readButt True rando st) = mem st"
    by (simp add: s)
  show "p4 (readButt True rando st) = (if counter st mod 3 = 0 then mem st else p4 st)"
    by (simp add: s)
  show "p5 (readButt True rando st) = (if counter st mod 3 = 1 then mem st else p5 st)"
    by (simp add: s)
  show "p6 (readButt True rando st) = (if counter st mod 3 = 2 then mem st else p6 st)"
    using c by (auto simp add: s)
qed

lemma press_other:
  assumes "patternSel st \<noteq> 0"
  shows "patternSel (readButt True rando st) = 0"
    and "counter (readButt True rando st) = counter st"
    and "a (readButt True rando st) = random_grid rando"
    and "mem (readButt True rando st) = random_grid rando"
    and "p4 (readButt True rando st) = p4 st"
    and "p5 (readButt True rando st) = p5 st"
    and "p6 (readButt True rando st) = p6 st"
  by (simp_all add: readButt_new [OF assms] patternSel_patterns patterns_slots patterns_mem
      patterns_a_page0)


text \<open>
  Claim C5, amended. On page 0 a press copies \<^verbatim>\<open>mem\<close>, the stored seed grid, into the
  slot selected by \<open>counter mod 3\<close>, leaves the other two slots alone, increments the
  counter, sets the page to that slot (4, 5 or 6) and shows the seed. The next press
  finds a page other than 0: it saves nothing, returns to page 0 and draws a new seed.
  So with the counter at 0 it is the first, third and fifth press that fill slots 4, 5
  and 6, in this order, with the seeds that were current at each of them.
\<close>

theorem button_saves_seed:
  assumes "patternSel st = 0" "0 \<le> counter st"
  shows "let s1 = readButt True ra st; s2 = readButt True rb s1; s3 = readButt True rc s2;
             s4 = readButt True rd s3; s5 = readButt True re s4 in
    patternSel s1 = 4 + counter st mod 3 \<and> counter s1 = counter st + 1 \<and>
    a s1 = mem st \<and> mem s1 = mem st \<and>
    p4 s1 = (if counter st mod 3 = 0 then mem st else p4 st) \<and>
    p5 s1 = (if counter st mod 3 = 1 then mem st else p5 st) \<and>
    p6 s1 = (if counter st mod 3 = 2 then mem st else p6 st) \<and>
    patternSel s2 = 0 \<and> counter s2 = counter s1 \<and> mem s2 = random_grid rb \<and>
    p4 s2 = p4 s1 \<and> p5 s2 = p5 s1 \<and> p6 s2 = p6 s1 \<and>
    (counter st = 0 \<longrightarrow>
       patternSel s3 = 5 \<and> patternSel s4 = 0 \<and> patternSel s5 = 6 \<and> counter s5 = 3 \<and>
       p4 s5 = mem st \<and> p5 s5 = random_grid rb \<and> p6 s5 = random_grid rd)"
proof -
  define s1 where "s1 = readButt True ra st"
  define s2 where "s2 = readButt True rb s1"
  define s3 where "s3 = readButt True rc s2"
  define s4 where "s4 = readButt True rd s3"
  define s5 where "s5 = readButt True re s4"
  note e1 = press_page0 [OF assms, of ra, folded s1_def]
  have "counter st mod 3 = 0 \<or> counter st mod 3 = 1 \<or> counter st mod 3 = 2"
    by presburger
  then have n1: "patternSel s1 \<noteq> 0" using e1(1) by auto
  note e2 = press_other [OF n1, of rb, folded s2_def]
  have first: "patternSel s1 = 4 + counter st mod 3 \<and> counter s1 = counter st + 1 \<and>
    a s1 = mem st \<and> mem s1 = mem st \<and>
    p4 s1 = (if counter st mod 3 = 0 then mem st else p4 st) \<and>
    p5 s1 = (if counter st mod 3 = 1 then mem st else p5 st) \<and>
    p6 s1 = (if counter st mod 3 = 2 then mem st else p6 st)"
    using e1 by simp
  have second: "patternSel s2 = 0 \<and> counter s2 = counter s1 \<and> mem s2 = random_grid rb \<and>
    p4 s2 = p4 s1 \<and> p5 s2 = p5 s1 \<and> p6 s2 = p6 s1"
    using e2 by simp
  have rest: "patternSel s3 = 5 \<and> patternSel s4 = 0 \<and> patternSel s5 = 6 \<and> counter s5 = 3 \<and>
       p4 s5 = mem st \<and> p5 s5 = random_grid rb \<and> p6 s5 = random_grid rd"
    if z: "counter st = 0"
  proof -
    have c2: "patternSel s2 = 0" "0 \<le> counter s2" "counter s2 = 1"
      using e2 e1 z by simp_all
    note e3 = press_page0 [OF c2(1,2), of rc, folded s3_def]
    have n3: "patternSel s3 \<noteq> 0" using e3(1) c2(3) by simp
    note e4 = press_other [OF n3, of rd, folded s4_def]
    have c4: "patternSel s4 = 0" "0 \<le> counter s4" "counter s4 = 2"
      using e4 e3 c2 by simp_all
    note e5 = press_page0 [OF c4(1,2), of re, folded s5_def]
    show ?thesis
      using e1 e2 e3 e4 e5 c2 c4 z by simp
  qed
  from first second rest show ?thesis
    unfolding Let_def s1_def [symmetric] s2_def [symmetric] s3_def [symmetric]
      s4_def [symmetric] s5_def [symmetric]
    by blast
qed

lemma page0_facts: "patternSel page0 = 0" "counter page0 = 0" "mem page0 = random_grid rando_full"
  "p4 page0 = zero_grid" "p5 page0 = zero_grid" "p6 page0 = zero_grid"
  by (simp_all add: page0_def patternSel_patterns patterns_slots patterns_mem globals_def)

text \<open>
  The amended claim at a state on page 0 whose seed is the all-255 grid.
\<close>

theorem button_saves_seed_witness:
  "patternSel page0 = 0 \<and> 0 \<le> counter page0 \<and> counter page0 = 0 \<and>
   patternSel (readButt True rando_zero page0) = 4 \<and>
   p4 (readButt True rando_zero page0) = random_grid rando_full \<and>
   p6 (readButt True rando_zero (readButt True rando_full (readButt True rando_zero
        (readButt True rando_zero (readButt True rando_zero page0))))) = random_grid rando_full"
proof -
  have h: "patternSel page0 = 0" "0 \<le> counter page0" by (simp_all add: page0_facts)
  show ?thesis
    using button_saves_seed [OF h, of rando_zero rando_zero rando_zero rando_full rando_zero]
    by (simp add: Let_def page0_facts)
qed

lemma random_grid_full_nonzero: "random_grid rando_full \<noteq> zero_grid"
proof
  assume "random_grid rando_full = zero_grid"
  then have "random_grid rando_full ! 0 ! 0 = zero_grid ! 0 ! 0" by simp
  then show False
    by (simp add: random_grid_def rando_full_def zero_grid_def n_def x_def y_def s_def)
qed

text \<open>
  Claim C5 as stated fails: from page 0 the second press leaves the page at 0, not at
  a slot, and after three presses slot 6 is still the empty grid.
\<close>

theorem three_presses_counterexample:
  "patternSel page0 = 0 \<and>
   patternSel (readButt True rando_zero (readButt True rando_zero page0)) = 0 \<and>
   patternSel (readButt True rando_zero (readButt True rando_zero (readButt True rando_zero page0))) = 5 \<and>
   p6 (readButt True rando_zero (readButt True rando_zero (readButt True rando_zero page0))) = zero_grid \<and>
   mem page0 \<noteq> zero_grid"
proof -
  have h: "patternSel page0 = 0" "0 \<le> counter page0" by (simp_all add: page0_facts)
  note e1 = press_page0 [OF h, of rando_zero]
  have n1: "patternSel (readButt True rando_zero page0) \<noteq> 0"
    using e1(1) by (simp add: page0_facts)
  note e2 = press_other [OF n1, of rando_zero]
  have c2: "patternSel (readButt True rando_zero (readButt True rando_zero page0)) = 0"
    "0 \<le> counter (readButt True rando_zero (readButt True rando_zero page0))"
    using e2 e1 by (simp_all add: page0_facts)
  note e3 = press_page0 [OF c2, of rando_zero]
  show ?thesis
    using e1 e2 e3 by (simp add: page0_facts random_grid_full_nonzero)
qed

section \<open>The potentiometer\<close>

lemma readPot_refreshRate:
  "refreshRate (readPot reading held st) = constrain (map_range reading 970 10 minSpeed maxSpeed) 42 2500"
  by (simp add: readPot_def Let_def)

lemma readPot_brightness:
  "brightness (readPot reading held st) = (if held then map_range reading 0 970 0 15 else brightness st)"
  by (simp add: readPot_def Let_def)

lemma readPot_intensity:
  "intensity (readPot reading held st) =
     (if held then foldl (\<lambda>is i. setIntensity i (map_range reading 0 970 0 15) is) (intensity st) [0..<4]
      else intensity st)"
  by (simp add: readPot_def Let_def x_def y_def)

lemma map_range_brightness:
  assumes "0 \<le> reading" "reading \<le> 1023"
  shows "0 \<le> map_range reading 0 970 0 15 \<and> map_range reading 0 970 0 15 \<le> 15"
proof -
  have e: "map_range reading 0 970 0 15 = (reading * 15) div 970"
    using assms by (cases "reading = 0") (simp_all add: map_range_def signed_divide_int_def)
  have lo: "0 \<le> (reading * 15) div 970"
    using assms by (simp add: pos_imp_zdiv_nonneg_iff)
  have "(reading * 15) div 970 \<le> (1023 * 15) div 970"
    using assms by (intro zdiv_mono1) simp_all
  then have hi: "(reading * 15) div 970 \<le> 15" by simp
  show ?thesis unfolding e using lo hi by blast
qed

lemma length_four: "length xs = 4 \<Longrightarrow> \<exists>p q r t. xs = [p, q, r, t]"
  by (cases xs; cases "tl xs"; cases "tl (tl xs)"; cases "tl (tl (tl xs))") auto

lemma set_all_intensity:
  assumes "length is = 4" "0 \<le> b" "b \<le> 15"
  shows "foldl (\<lambda>is i. setIntensity i b is) is [0..<4] = replicate 4 b"
proof -
  from length_four [OF assms(1)] obtain p q r t where "is = [p, q, r, t]" by blast
  then show ?thesis
    using assms(2,3) by (simp add: setIntensity_def upt_rec numeral_eq_Suc)
qed


text \<open>
  Claim C8, amended. Every poll sets the tick period to the remapped reading, clamped
  to \<open>42..2500\<close>, whether the button is held or not. While the button is held the poll
  also sets the brightness to the remapped reading, which is in \<open>0..15\<close> for a reading
  in \<open>0..1023\<close>, and writes it to the four tiles; while it is not held the brightness
  and the intensities stay as they are.
\<close>

theorem readPot_effects:
  "refreshRate (readPot reading held st) = max 42 (min 2500 (map_range reading 970 10 42 2500)) \<and>
   42 \<le> refreshRate (readPot reading held st) \<and> refreshRate (readPot reading held st) \<le> 2500 \<and>
   (held \<longrightarrow> brightness (readPot reading held st) = map_range reading 0 970 0 15) \<and>
   (held \<and> 0 \<le> reading \<and> reading \<le> 1023 \<longrightarrow>
      0 \<le> brightness (readPot reading held st) \<and> brightness (readPot reading held st) \<le> 15 \<and>
      (length (intensity st) = 4 \<longrightarrow>
         intensity (readPot reading held st) = replicate 4 (brightness (readPot reading held st)))) \<and>
   (\<not> held \<longrightarrow> brightness (readPot reading held st) = brightness st \<and>
      intensity (readPot reading held st) = intensity st)"
proof -
  have rate: "refreshRate (readPot reading held st) = max 42 (min 2500 (map_range reading 970 10 42 2500))"
    by (simp add: readPot_refreshRate constrain_def minSpeed_def maxSpeed_def)
  have bright: "0 \<le> brightness (readPot reading held st) \<and> brightness (readPot reading held st) \<le> 15 \<and>
      (length (intensity st) = 4 \<longrightarrow>
         intensity (readPot reading held st) = replicate 4 (brightness (readPot reading held st)))"
    if "held" "0 \<le> reading" "reading \<le> 1023"
  proof -
    note b = map_range_brightness [OF that(2,3)]
    show ?thesis
      using that(1) b set_all_intensity [of "intensity st" "map_range reading 0 970 0 15"]
      by (simp add: readPot_brightness readPot_intensity)
  qed
  show ?thesis
    using rate bright by (auto simp add: readPot_brightness readPot_intensity)
qed

text \<open>
  The amended claim at reading 1023 with the button held and at reading 10 without.
\<close>

theorem readPot_effects_witness:
  "refreshRate (readPot 1023 True globals) = 42 \<and> brightness (readPot 1023 True globals) = 15 \<and>
   intensity (readPot 1023 True globals) = [15, 15, 15, 15] \<and>
   refreshRate (readPot 10 False globals) = 2500 \<and> brightness (readPot 10 False globals) = 0 \<and>
   intensity (readPot 10 False globals) = [0, 0, 0, 0]"
proof -
  have m: "map_range 1023 970 10 42 2500 = - 93" "map_range 1023 0 970 0 15 = 15"
    "map_range 10 970 10 42 2500 = 2500"
    by (simp_all add: map_range_def signed_divide_int_def)
  have i: "length (intensity globals) = 4" "brightness globals = 0" "intensity globals = [0, 0, 0, 0]"
    by (simp_all add: globals_def)
  show ?thesis
    using readPot_effects [of 1023 True globals] readPot_effects [of 10 False globals]
    by (simp add: m i numeral_eq_Suc)
qed

text \<open>
  Claim C8 as stated fails: with the button held, a poll at reading 10 changes the tick
  period from 100 to 2500.
\<close>

theorem readPot_held_counterexample:
  "refreshRate globals = 100 \<and> refreshRate (readPot 10 True globals) = 2500"
proof -
  have m: "map_range 10 970 10 42 2500 = 2500"
    by (simp add: map_range_def signed_divide_int_def)
  show ?thesis
    by (simp add: readPot_refreshRate m minSpeed_def maxSpeed_def constrain_def globals_def)
qed

section \<open>The instant display driver\<close>

lemma wf_display_nth: "wf_display d \<Longrightarrow> t < 4 \<Longrightarrow> length (d ! t) = 8"
  by (simp add: wf_display_def list_all_length)

lemma wf_display_setRow: "wf_display d \<Longrightarrow> wf_display (setRow addr row v d)"
  by (auto simp add: wf_display_def setRow_def list_all_length nth_list_update)

lemma setRow_nth:
  assumes "wf_display d" "t < 4" "r' < 8"
  shows "setRow addr row v d ! t ! r' =
     (if t = addr \<and> r' = row then ucast v else d ! t ! r')"
  using assms wf_display_nth [OF assms(1,2)]
  by (auto simp add: setRow_def wf_display_def nth_list_update)

lemma updateDisplay_row_wf: "wf_display d \<Longrightarrow> wf_display (updateDisplay_row u d i)"
  by (simp add: updateDisplay_row_def wf_display_setRow)

lemma tile_cases: "t < 4 \<Longrightarrow> t = 0 \<or> t = 1 \<or> t = 2 \<or> t = (3::nat)"
  by linarith

lemma updateDisplay_row_nth:
  assumes "wf_display d" "t < 4" "r' < 8"
  shows "updateDisplay_row u d i ! t ! r' =
     (if r' = i then ucast (u ! (8 * (1 - t div 2) + i) ! (1 - t mod 2)) else d ! t ! r')"
proof -
  note w = wf_display_setRow assms(1)
  from tile_cases [OF assms(2)] show ?thesis
    using assms(3)
    by (elim disjE) (simp_all add: updateDisplay_row_def setRow_nth w add.commute)
qed

lemma updateDisplay_loop:
  assumes "wf_display d" "K \<le> 8"
  shows "wf_display (foldl (updateDisplay_row u) d [0..<K]) \<and>
    (\<forall>t<4. \<forall>r'<8. foldl (updateDisplay_row u) d [0..<K] ! t ! r' =
       (if r' < K then ucast (u ! (8 * (1 - t div 2) + r') ! (1 - t mod 2)) else d ! t ! r'))"
  using assms(2)
proof (induction K)
  case 0
  then show ?case using assms(1) by simp
next
  case (Suc K)
  then have wf: "wf_display (foldl (updateDisplay_row u) d [0..<K])"
    and IH: "\<And>t r'. t < 4 \<Longrightarrow> r' < 8 \<Longrightarrow> foldl (updateDisplay_row u) d [0..<K] ! t ! r' =
       (if r' < K then ucast (u ! (8 * (1 - t div 2) + r') ! (1 - t mod 2)) else d ! t ! r')"
    by simp_all
  show ?case
    by (auto simp add: updateDisplay_row_wf wf updateDisplay_row_nth IH less_Suc_eq)
qed

lemma updateDisplay_nth:
  assumes "wf_display d" "t < 4" "r' < 8"
  shows "updateDisplay u d ! t ! r' = ucast (u ! (8 * (1 - t div 2) + r') ! (1 - t mod 2))"
  using updateDisplay_loop [OF assms(1), of 8 u] assms(2,3)
  by (simp add: updateDisplay_def s_def)

lemma tile_led_updateDisplay:
  assumes "wf_display d" "t < 4" "row < 8" "col < 8"
  shows "tile_led (updateDisplay u d) t row col =
     bit (u ! (8 * (1 - t div 2) + row) ! (1 - t mod 2)) (7 - col)"
proof -
  have "7 - col < 8" by arith
  then show ?thesis
    using assms by (simp add: tile_led_def updateDisplay_nth bit_simps)
qed

lemma half_cases:
  assumes "r < (16::nat)"
  shows "r div 8 = 0 \<or> r div 8 = 1"
proof (cases "r < 8")
  case True
  then show ?thesis by simp
next
  case False
  with assms have "r - 8 < 8" by arith
  with False show ?thesis by (simp add: div_if [of r])
qed

text \<open>
  Claim C4, amended. \<^verbatim>\<open>updateDisplay\<close> shows the cell at logical row \<open>r\<close>, column \<open>c\<close> at
  row \<open>r mod 8\<close>, column \<open>c mod 8\<close> of tile \<open>3 - (2 * (r div 8) + c div 8)\<close>: the top left
  quadrant is tile 3 and the bottom right quadrant is tile 0. For the grid whose only
  live cell is at \<open>(0, 0)\<close>, the only lit led of the four tiles is row 0, column 0 of
  tile 3.
\<close>

theorem updateDisplay_tiles:
  assumes "wf_display d"
  shows "(\<forall>r<16. \<forall>c<16.
      tile_led (updateDisplay u d) (3 - (2 * (r div 8) + c div 8)) (r mod 8) (c mod 8)
        = cell u r c) \<and>
    (\<forall>t<4. \<forall>row<8. \<forall>col<8.
      tile_led (updateDisplay single_cell d) t row col \<longleftrightarrow> t = 3 \<and> row = 0 \<and> col = 0)"
proof (intro conjI allI impI)
  fix r c :: nat
  assume r: "r < 16" and c: "c < 16"
  define t where "t = 3 - (2 * (r div 8) + c div 8)"
  from half_cases [OF r] half_cases [OF c]
  have t: "t < 4" "1 - t div 2 = r div 8" "1 - t mod 2 = c div 8"
    unfolding t_def by auto
  have rc: "r mod 8 < 8" "c mod 8 < 8" by simp_all
  have "tile_led (updateDisplay u d) t (r mod 8) (c mod 8) =
      bit (u ! (8 * (r div 8) + r mod 8) ! (c div 8)) (7 - c mod 8)"
    using tile_led_updateDisplay [OF assms t(1) rc, of u] unfolding t(2,3) .
  then have "tile_led (updateDisplay u d) t (r mod 8) (c mod 8) = cell u r c"
    by (simp add: cell_def)
  then show "tile_led (updateDisplay u d) (3 - (2 * (r div 8) + c div 8)) (r mod 8) (c mod 8)
        = cell u r c"
    by (simp add: t_def)
next
  fix t row col :: nat
  assume t: "t < 4" and row: "row < 8" and col: "col < 8"
  have s0: "single_cell ! 0 = [128, 0]"
    by (simp add: single_cell_def zero_grid_def)
  have s1: "single_cell ! i = [0, 0]" if "0 < i" "i < 16" for i
    using that by (simp add: single_cell_def zero_grid_def)
  have b: "bit (128 :: u32) (7 - col) \<longleftrightarrow> col = 0"
  proof -
    have "bit ((2 :: u32) ^ 7) (7 - col) \<longleftrightarrow> 7 - col = 7"
      by (simp only: bit_exp_iff) auto
    moreover have "7 - col = 7 \<longleftrightarrow> col = 0" using col by arith
    ultimately show ?thesis by simp
  qed
  from tile_cases [OF t]
  show "tile_led (updateDisplay single_cell d) t row col \<longleftrightarrow> t = 3 \<and> row = 0 \<and> col = 0"
  proof (elim disjE)
    assume "t = 0"
    then show ?thesis using row col
      by (simp add: tile_led_updateDisplay [OF assms] s1)
  next
    assume "t = 1"
    then show ?thesis using row col
      by (simp add: tile_led_updateDisplay [OF assms] s1)
  next
    assume "t = 2"
    then show ?thesis using row col
      by (cases "row = 0") (simp_all add: tile_led_updateDisplay [OF assms] s0 s1)
  next
    assume "t = 3"
    then show ?thesis using row col b
      by (cases "row = 0") (simp_all add: tile_led_updateDisplay [OF assms] s0 s1)
  qed
qed

lemma wf_zero_display: "wf_display zero_display"
  by (simp add: wf_display_def zero_display_def list_all_length)

text \<open>
  The amended claim on the cleared display, for the glider of page 1 and for the
  single-cell grid.
\<close>

theorem updateDisplay_tiles_witness:
  "wf_display zero_display \<and> cell p1 3 2 \<and> tile_led (updateDisplay p1 zero_display) 3 3 2 \<and>
   tile_led (updateDisplay single_cell zero_display) 3 0 0 \<and>
   \<not> tile_led (updateDisplay single_cell zero_display) 2 0 0"
proof -
  have c: "cell p1 3 2" by (simp add: cell_def p1_def)
  note T = updateDisplay_tiles [OF wf_zero_display, of p1]
  show ?thesis
    using T [THEN conjunct1, rule_format, of 3 2] T [THEN conjunct2, rule_format, of 3 0 0]
      T [THEN conjunct2, rule_format, of 2 0 0] c wf_zero_display
    by simp
qed

text \<open>
  Claim C4 as stated fails: for the single live cell at \<open>(0, 0)\<close>, row 0, column 0 of
  tile 0 stays dark; the led that is lit is on tile 3.
\<close>

theorem updateDisplay_tile0_counterexample:
  "cell single_cell 0 0 \<and> \<not> tile_led (updateDisplay single_cell zero_display) 0 0 0 \<and>
   tile_led (updateDisplay single_cell zero_display) 3 0 0"
proof -
  have c: "cell single_cell 0 0" by (simp add: cell_def single_cell_def zero_grid_def)
  have "single_cell ! 8 = [0, 0]" "single_cell ! 0 = [128, 0]"
    by (simp_all add: single_cell_def zero_grid_def)
  then show ?thesis
    using c by (simp add: tile_led_updateDisplay [OF wf_zero_display])
qed

section \<open>Evaluating the generation step; a blinker is flagged\<close>

lemma upt_16: "[0..<16] = [0, 1, 2, 3, 4, 5, 6, 7, 8, 9, 10, 11, 12, 13, 14, 15]"
  by (simp add: upt_rec)

lemma foldl_fixed: "(\<And>k. f acc k = acc) \<Longrightarrow> foldl f acc ks = acc"
  by (induction ks) simp_all

lemma rules_row_dead:
  assumes "t ! ((i + 15) mod 16) = 0" "t ! i = 0" "t ! ((i + 1) mod 16) = 0"
  shows "rules_row t t2 i = t2"
  unfolding rules_row_def
  by (rule foldl_fixed) (use assms in \<open>simp add: rules_cell_def total_cnt_of_bool bitRead_of_bool\<close>)

lemma rules_packed_rows:
  "rules_packed t = foldl (rules_row t) t [0, 1, 2, 3, 4, 5, 6, 7, 8, 9, 10, 11, 12, 13, 14, 15]"
  by (simp add: rules_packed_def dims upt_16)

lemmas rules_row_live = rules_row_def m_def x_def s_def upt_16 rules_cell_def total_cnt_def
  bitRead_def bitWrite_def bitSet_def bitClear_def n_def y_def

lemma pack_blinker: "pack blinker = [0, 0, 0, 0, 0x3800, 0, 0, 0, 0, 0, 0, 0, 0, 0, 0, 0]"
  by (simp add: pack_def dims upt_16 blinker_def zero_grid_def pack_row_def)

lemma blinker_step1:
  "rules_packed [0, 0, 0, 0, 0x3800, 0, 0, 0, 0, 0, 0, 0, 0, 0, 0, 0]
     = [0, 0, 0, 0x1000, 0x1000, 0x1000, 0, 0, 0, 0, 0, 0, 0, 0, 0, 0]"
  unfolding rules_packed_rows
  by (simp add: rules_row_dead rules_row_live)


lemma blinker_step2:
  "rules_packed [0, 0, 0, 0x1000, 0x1000, 0x1000, 0, 0, 0, 0, 0, 0, 0, 0, 0, 0]
     = [0, 0, 0, 0, 0x3800, 0, 0, 0, 0, 0, 0, 0, 0, 0, 0, 0]"
  unfolding rules_packed_rows
  by (simp add: rules_row_dead rules_row_live)

lemma pack_row_unpack: "pack_row [drop_bit 8 w, take_bit 8 w] = w"
  by (simp add: pack_row_def bits_ident)

lemma pack_unpack: "length t = 16 \<Longrightarrow> pack (unpack t) = t"
  by (rule nth_equalityI) (simp_all add: pack_length pack_nth unpack_nth pack_row_unpack)

lemma unpack_pack:
  assumes "wf_grid u"
  shows "unpack (pack u) = u"
proof (rule nth_equalityI)
  show "length (unpack (pack u)) = length u"
    using assms by (simp add: unpack_length wf_grid_def dims)
next
  fix i assume "i < length (unpack (pack u))"
  then have i: "i < 16" by (simp add: unpack_length)
  from assms i obtain hi lo where r: "u ! i = [hi, lo]" and b: "hi < 256" "lo < 256"
    by (rule wf_grid_row)
  have "drop_bit 8 (pack_row [hi, lo]) = hi"
    by (rule bit_eqI) (use b in \<open>auto simp add: bit_simps bit_pack_row byte_bits\<close>)
  moreover have "take_bit 8 (pack_row [hi, lo]) = lo"
    by (rule bit_eqI) (use b in \<open>auto simp add: bit_simps bit_pack_row byte_bits\<close>)
  ultimately show "unpack (pack u) ! i = u ! i"
    using i by (simp add: unpack_nth pack_nth r)
qed

lemma rules_grid_twice:
  "rules_grid (rules_grid u) = unpack (rules_packed (rules_packed (pack u)))"
  by (simp add: rules_grid_def pack_unpack rules_packed_length pack_length)

lemma wf_blinker: "wf_grid blinker"
  by (auto simp add: wf_grid_def blinker_def zero_grid_def dims list_all_iff
      dest!: subsetD [OF set_update_subset_insert])

lemma blinker_period2: "rules_grid (rules_grid blinker) = blinker"
  using unpack_pack [OF wf_blinker]
  by (simp add: rules_grid_twice pack_blinker blinker_step1 blinker_step2)


lemma tick_observe:
  assumes "\<not> periodic st"
  shows "a (tick now rando st) = rules_grid (a st)"
    and "r1 (tick now rando st) = pack (rules_grid (a st))"
    and "r2 (tick now rando st) = r1 st"
    and "r3 (tick now rando st) = r2 st"
    and "g (tick now rando st) = g st + 1"
    and "patternSel (tick now rando st) = patternSel st"
    and "r64 (tick now rando st) =
          (if (g st + 1) smod 64 = 0 then pack (rules_grid (a st)) else r64 st)"
    and "periodic (tick now rando st) \<longleftrightarrow>
          pack (rules_grid (a st)) = r1 st \<or> pack (rules_grid (a st)) = r2 st \<or>
          pack (rules_grid (a st)) = r3 st \<or>
          ((g st + 1) smod 64 = 0 \<and> pack (rules_grid (a st)) = r64 st)"
  unfolding tick_unsettled [OF assms]
  by (simp_all add: checkPeriodic_ring checkPeriodic_r64 checkPeriodic_periodic
      rules_detector a_rules g_rules assms)

lemma tick_observe_r4:
  assumes "\<not> periodic st"
  shows "r4 (tick now rando st) = r3 st"
  unfolding tick_unsettled [OF assms]
  by (simp add: checkPeriodic_ring rules_detector)

lemma tick_flag:
  assumes "\<not> periodic st"
  shows "periodic (tick now rando st) \<longleftrightarrow>
     r1 (tick now rando st) = r2 (tick now rando st) \<or>
     r1 (tick now rando st) = r3 (tick now rando st) \<or>
     r1 (tick now rando st) = r4 (tick now rando st) \<or>
     (g (tick now rando st) smod 64 = 0 \<and> r1 (tick now rando st) = r64 st)"
  by (simp only: tick_observe [OF assms] tick_observe_r4 [OF assms])

text \<open>
  Claim C6. Start with the settled flag clear and a grid that the generation step maps
  back to itself after two steps. Each of the next simulation steps, as long as the
  flag is still clear, shifts the history ring by one, stores the packed new grid in
  \<^verbatim>\<open>r1\<close>, and sets the flag exactly when \<^verbatim>\<open>r1\<close> equals one of the three older ring
  entries \<^verbatim>\<open>r2\<close>, \<^verbatim>\<open>r3\<close>, \<^verbatim>\<open>r4\<close>, or equals the checkpoint at a generation that is a
  multiple of 64. If the first two observations leave the flag clear, the third finds
  \<^verbatim>\<open>r1\<close> equal to \<^verbatim>\<open>r3\<close> and sets it. So the flag is set after at most three
  observations.
\<close>

theorem period2_settles:
  assumes "\<not> periodic st" "rules_grid (rules_grid (a st)) = a st"
  shows "let s1 = run now rando 1 st; s2 = run now rando 2 st; s3 = run now rando 3 st in
    a s1 = rules_grid (a st) \<and> r1 s1 = pack (a s1) \<and>
    r2 s1 = r1 st \<and> r3 s1 = r2 st \<and> r4 s1 = r3 st \<and> g s1 = g st + 1 \<and>
    (periodic s1 \<longleftrightarrow>
       r1 s1 = r2 s1 \<or> r1 s1 = r3 s1 \<or> r1 s1 = r4 s1 \<or>
       (g s1 smod 64 = 0 \<and> r1 s1 = r64 st)) \<and>
    (\<not> periodic s1 \<longrightarrow>
       a s2 = a st \<and> r1 s2 = pack (a s2) \<and>
       r2 s2 = r1 s1 \<and> r3 s2 = r2 s1 \<and> r4 s2 = r3 s1 \<and> g s2 = g st + 2 \<and>
       (periodic s2 \<longleftrightarrow>
          r1 s2 = r2 s2 \<or> r1 s2 = r3 s2 \<or> r1 s2 = r4 s2 \<or>
          (g s2 smod 64 = 0 \<and> r1 s2 = r64 s1))) \<and>
    (\<not> periodic s1 \<and> \<not> periodic s2 \<longrightarrow>
       a s3 = rules_grid (a st) \<and> r1 s3 = pack (a s3) \<and>
       r2 s3 = r1 s2 \<and> r3 s3 = r2 s2 \<and> r4 s3 = r3 s2 \<and> g s3 = g st + 3 \<and>
       (periodic s3 \<longleftrightarrow>
          r1 s3 = r2 s3 \<or> r1 s3 = r3 s3 \<or> r1 s3 = r4 s3 \<or>
          (g s3 smod 64 = 0 \<and> r1 s3 = r64 s2)) \<and>
       r1 s3 = r3 s3 \<and> periodic s3) \<and>
    (periodic s1 \<or> periodic s2 \<or> periodic s3)"
proof -
  define s1 where "s1 = tick (now 0) (rando 0) st"
  define s2 where "s2 = tick (now 1) (rando 1) s1"
  define s3 where "s3 = tick (now 2) (rando 2) s2"
  have runs: "run now rando 1 st = s1" "run now rando 2 st = s2" "run now rando 3 st = s3"
    by (simp_all add: s1_def s2_def s3_def numeral_2_eq_2 numeral_3_eq_3)
  note o1 = tick_observe [OF assms(1), of "now 0" "rando 0", folded s1_def]
    tick_observe_r4 [OF assms(1), of "now 0" "rando 0", folded s1_def]
  note f1 = tick_flag [OF assms(1), of "now 0" "rando 0", folded s1_def]
  have first: "a s1 = rules_grid (a st) \<and> r1 s1 = pack (a s1) \<and>
    r2 s1 = r1 st \<and> r3 s1 = r2 st \<and> r4 s1 = r3 st \<and> g s1 = g st + 1"
    by (simp only: o1 simp_thms)
  have second: "a s2 = a st \<and> r1 s2 = pack (a s2) \<and>
       r2 s2 = r1 s1 \<and> r3 s2 = r2 s1 \<and> r4 s2 = r3 s1 \<and> g s2 = g st + 2 \<and>
       (periodic s2 \<longleftrightarrow>
          r1 s2 = r2 s2 \<or> r1 s2 = r3 s2 \<or> r1 s2 = r4 s2 \<or>
          (g s2 smod 64 = 0 \<and> r1 s2 = r64 s1))"
    if u1: "\<not> periodic s1"
  proof -
    note o2 = tick_observe [OF u1, of "now 1" "rando 1", folded s2_def]
      tick_observe_r4 [OF u1, of "now 1" "rando 1", folded s2_def]
    note f2 = tick_flag [OF u1, of "now 1" "rando 1", folded s2_def]
    have "a s2 = a st" using o2(1) o1(1) assms(2) by simp
    moreover have "r1 s2 = pack (a s2)" using o2(1,2) by simp
    moreover have "g s2 = g st + 2" using o2(5) o1(5) by simp
    ultimately show ?thesis using o2(3,4,9) f2 by blast
  qed
  have third: "a s3 = rules_grid (a st) \<and> r1 s3 = pack (a s3) \<and>
       r2 s3 = r1 s2 \<and> r3 s3 = r2 s2 \<and> r4 s3 = r3 s2 \<and> g s3 = g st + 3 \<and>
       (periodic s3 \<longleftrightarrow>
          r1 s3 = r2 s3 \<or> r1 s3 = r3 s3 \<or> r1 s3 = r4 s3 \<or>
          (g s3 smod 64 = 0 \<and> r1 s3 = r64 s2)) \<and>
       r1 s3 = r3 s3 \<and> periodic s3"
    if u1: "\<not> periodic s1" and u2: "\<not> periodic s2"
  proof -
    note o2 = tick_observe [OF u1, of "now 1" "rando 1", folded s2_def]
    note o3 = tick_observe [OF u2, of "now 2" "rando 2", folded s3_def]
      tick_observe_r4 [OF u2, of "now 2" "rando 2", folded s3_def]
    note f3 = tick_flag [OF u2, of "now 2" "rando 2", folded s3_def]
    have a2: "a s2 = a st" using o2(1) o1(1) assms(2) by simp
    have a3: "a s3 = rules_grid (a st)" using o3(1) a2 by simp
    have p3: "r1 s3 = pack (a s3)" using o3(1,2) by simp
    have g3: "g s3 = g st + 3" using o3(5) o2(5) o1(5) by simp
    have "r1 s3 = r1 s1" using p3 a3 o1(1,2) by simp
    moreover have "r3 s3 = r1 s1" using o3(4) o2(3) by simp
    ultimately have ring: "r1 s3 = r3 s3" by simp
    then have "periodic s3" using f3 by blast
    then show ?thesis using a3 p3 g3 o3(3,4,9) f3 ring by blast
  qed
  have some: "periodic s1 \<or> periodic s2 \<or> periodic s3"
    using third by blast
  show ?thesis
    unfolding Let_def runs using first f1 second third some by blast
qed

lemma pack_rules_grid_blinker:
  "pack (rules_grid blinker) = [0, 0, 0, 0x1000, 0x1000, 0x1000, 0, 0, 0, 0, 0, 0, 0, 0, 0, 0]"
  by (simp add: rules_grid_def pack_blinker blinker_step1 pack_unpack)

lemma nonzero_row4: "t ! 4 \<noteq> 0 \<Longrightarrow> t \<noteq> zero_packed"
  using zero_packed_nth [of 4] by auto

lemma blinker_packed_distinct:
  "[0, 0, 0, 0x1000, 0x1000, 0x1000, 0, 0, 0, 0, 0, 0, 0, 0, 0, 0] \<noteq> zero_packed"
  "[0, 0, 0, 0, 0x3800, 0, 0, 0, 0, 0, 0, 0, 0, 0, 0, 0] \<noteq> zero_packed"
  "[0, 0, 0, 0, 0x3800, 0, 0, 0, 0, 0, 0, 0, 0, 0, 0, 0] \<noteq>
   [0, 0, 0, 0x1000, 0x1000, 0x1000, 0, 0, 0, 0, 0, 0, 0, 0, 0, (0::u32)]"
  by (simp_all add: nonzero_row4)

text \<open>
  The claim for the blinker on the cleared history of the initial globals: the flag
  stays clear at the first and the second observation and is set at the third, where
  \<^verbatim>\<open>r1\<close> equals \<^verbatim>\<open>r3\<close> and differs from \<^verbatim>\<open>r2\<close>.
\<close>

theorem period2_settles_witness:
  "\<not> periodic (globals\<lparr>a := blinker\<rparr>) \<and>
   rules_grid (rules_grid (a (globals\<lparr>a := blinker\<rparr>))) = a (globals\<lparr>a := blinker\<rparr>) \<and>
   \<not> periodic (run clock no_random 1 (globals\<lparr>a := blinker\<rparr>)) \<and>
   \<not> periodic (run clock no_random 2 (globals\<lparr>a := blinker\<rparr>)) \<and>
   periodic (run clock no_random 3 (globals\<lparr>a := blinker\<rparr>)) \<and>
   r1 (run clock no_random 3 (globals\<lparr>a := blinker\<rparr>)) =
     r3 (run clock no_random 3 (globals\<lparr>a := blinker\<rparr>)) \<and>
   r1 (run clock no_random 3 (globals\<lparr>a := blinker\<rparr>)) \<noteq>
     r2 (run clock no_random 3 (globals\<lparr>a := blinker\<rparr>))"
proof -
  define st where "st = globals\<lparr>a := blinker\<rparr>"
  define s1 where "s1 = run clock no_random 1 st"
  define s2 where "s2 = run clock no_random 2 st"
  define s3 where "s3 = run clock no_random 3 st"
  have h: "\<not> periodic st" "rules_grid (rules_grid (a st)) = a st"
    by (simp_all add: st_def globals_def blinker_period2)
  have i: "a st = blinker" "r1 st = zero_packed" "r2 st = zero_packed" "r3 st = zero_packed"
    "r64 st = zero_packed" "g st = 0"
    by (simp_all add: st_def globals_def)
  have sm: "(1::int) smod 64 \<noteq> 0" "(2::int) smod 64 \<noteq> 0"
    by (simp_all add: smod_int_alt_def)
  note T = period2_settles [OF h, of clock no_random, unfolded Let_def,
      folded s1_def s2_def s3_def]
  note d = blinker_packed_distinct
  note b = pack_rules_grid_blinker pack_blinker
  from T have "a s1 = rules_grid (a st) \<and> r1 s1 = pack (a s1) \<and> r2 s1 = r1 st \<and>
      r3 s1 = r2 st \<and> r4 s1 = r3 st \<and> g s1 = g st + 1"
    by blast
  then have e1: "r1 s1 = pack (rules_grid blinker)" "r2 s1 = zero_packed"
    "r3 s1 = zero_packed" "r4 s1 = zero_packed" "g s1 = 1"
    by (simp_all add: i)
  from T have "periodic s1 \<longleftrightarrow>
       r1 s1 = r2 s1 \<or> r1 s1 = r3 s1 \<or> r1 s1 = r4 s1 \<or>
       (g s1 smod 64 = 0 \<and> r1 s1 = r64 st)"
    by blast
  then have u1: "\<not> periodic s1"
    by (simp add: e1 b d sm)
  from T u1 have "a s2 = a st \<and> r1 s2 = pack (a s2) \<and> r2 s2 = r1 s1 \<and> r3 s2 = r2 s1 \<and>
      r4 s2 = r3 s1 \<and> g s2 = g st + 2"
    by blast
  then have e2: "r1 s2 = pack blinker" "r2 s2 = pack (rules_grid blinker)"
    "r3 s2 = zero_packed" "r4 s2 = zero_packed" "g s2 = 2"
    by (simp_all add: i e1)
  from T u1 have "periodic s2 \<longleftrightarrow>
       r1 s2 = r2 s2 \<or> r1 s2 = r3 s2 \<or> r1 s2 = r4 s2 \<or>
       (g s2 smod 64 = 0 \<and> r1 s2 = r64 s1)"
    by blast
  then have u2: "\<not> periodic s2"
    by (simp add: e2 b d sm)
  from T u1 u2 have "periodic s3 \<and> r1 s3 = r3 s3 \<and> a s3 = rules_grid (a st) \<and>
      r1 s3 = pack (a s3) \<and> r2 s3 = r1 s2"
    by blast
  then have c: "periodic s3" "r1 s3 = r3 s3" "a s3 = rules_grid (a st)"
    "r1 s3 = pack (a s3)" "r2 s3 = r1 s2"
    by blast+
  have e3: "r1 s3 = pack (rules_grid blinker)" "r2 s3 = pack blinker"
    using c(3,4,5) by (simp_all add: i e2)
  have "r1 s3 \<noteq> r2 s3"
    using d(3) by (simp add: e3 b)
  then show ?thesis
    using h u1 u2 c(1,2)
    unfolding s1_def s2_def s3_def st_def by blast
qed

section \<open>The generation step commutes with translations\<close>

lemma rows16_length: "rows16 t \<Longrightarrow> length t = 16"
  by (simp add: rows16_def)

lemma rows16_bits: "rows16 t \<Longrightarrow> i < 16 \<Longrightarrow> bit (t ! i) k \<Longrightarrow> k < 16"
  by (simp add: rows16_def list_all_length row16_bits)

lemma rows16_I:
  assumes "length t = 16" "\<And>i k. i < 16 \<Longrightarrow> bit (t ! i) k \<Longrightarrow> k < 16"
  shows "rows16 t"
  using assms by (simp add: rows16_def list_all_length row16_bits)

lemma bit_ror16:
  assumes "\<And>j. bit w j \<Longrightarrow> j < 16"
  shows "bit (ror16 w) k = (k < 16 \<and> bit w ((k + 1) mod 16))"
proof -
  have one: "bit (w AND 1) j = (j = 0 \<and> bit w 0)" for j
    by (auto simp add: bit_simps bit_1_iff)
  have "bit (push_bit 15 (w AND 1)) k = (k = 15 \<and> bit w 0)"
    by (simp only: bit_push_bit_iff one) auto
  moreover have "bit (drop_bit 1 w) k = bit w (Suc k)"
    using assms [of "Suc k"] by (auto simp add: bit_drop_bit_eq dest: bit_imp_le_length)
  ultimately have "bit (ror16 w) k = (bit w (Suc k) \<or> (k = 15 \<and> bit w 0))"
    by (simp only: ror16_def bit_or_iff)
  also have "\<dots> = (k < 16 \<and> bit w ((k + 1) mod 16))"
  proof (cases "k = 15")
    case True
    then show ?thesis using assms [of 16] by auto
  next
    case False
    show ?thesis
    proof (cases "k < 15")
      case True
      then show ?thesis by simp
    next
      case False
      with \<open>k \<noteq> 15\<close> have "16 \<le> k" by simp
      then show ?thesis using assms [of "Suc k"] by auto
    qed
  qed
  finally show ?thesis .
qed

lemma glide_length: "length (glide t) = length t"
  by (simp add: glide_def)

lemma glide_nth:
  assumes "length t = 16" "i < 16"
  shows "glide t ! i = ror16 (t ! ((i + 1) mod 16))"
  using assms by (simp add: glide_def nth_rotate1)

lemma bit_glide:
  assumes "rows16 t" "i < 16"
  shows "bit (glide t ! i) k = (k < 16 \<and> bit (t ! ((i + 1) mod 16)) ((k + 1) mod 16))"
proof -
  have "(i + 1) mod 16 < 16" by simp
  then have "\<And>j. bit (t ! ((i + 1) mod 16)) j \<Longrightarrow> j < 16"
    using rows16_bits [OF assms(1)] by blast
  then show ?thesis
    by (simp only: glide_nth [OF rows16_length [OF assms(1)] assms(2)] bit_ror16)
qed

lemma rows16_glide: "rows16 t \<Longrightarrow> rows16 (glide t)"
  by (rule rows16_I) (simp_all add: glide_length rows16_length bit_glide)

lemma rows16_rules_packed:
  assumes "rows16 t"
  shows "rows16 (rules_packed t)"
proof (rule rows16_I)
  show "length (rules_packed t) = 16"
    by (simp add: rules_packed_length rows16_length [OF assms])
next
  fix i k assume "i < 16" "bit (rules_packed t ! i) k"
  then show "k < 16"
    using rows16_bits [OF assms, of i k]
    by (simp add: rules_packed_bit rows16_length [OF assms] split: if_splits)
qed

lemma rows16_pack: "wf_grid u \<Longrightarrow> rows16 (pack u)"
  by (rule rows16_I) (simp_all add: pack_length bit_pack)


lemma wrap16:
  assumes "j < (16::nat)"
  shows "((j + 15) mod 16 + 1) mod 16 = j" "((j + 1) mod 16 + 15) mod 16 = j"
  using assms by (simp_all add: mod_simps)

lemma total_cnt_glide:
  assumes "rows16 t" "i < 16" "k < 16"
  shows "total_cnt (glide t) i k = total_cnt t ((i + 1) mod 16) ((k + 1) mod 16)"
proof -
  have lt: "(j + 15) mod 16 < 16" "(j + 1) mod 16 < 16" for j :: nat by simp_all
  note bg = bit_glide [OF assms(1)]
  show ?thesis
    by (simp only: total_cnt_of_bool bg lt assms(2,3) wrap16 [OF assms(2)]
        wrap16 [OF assms(3)] simp_thms)
qed

lemma rules_packed_glide:
  assumes "rows16 t"
  shows "rules_packed (glide t) = glide (rules_packed t)"
proof (rule nth_equalityI)
  show "length (rules_packed (glide t)) = length (glide (rules_packed t))"
    by (simp add: rules_packed_length glide_length rows16_length [OF assms])
next
  fix i assume "i < length (rules_packed (glide t))"
  then have i: "i < 16"
    by (simp add: rules_packed_length glide_length rows16_length [OF assms])
  have i': "(i + 1) mod 16 < 16" by simp
  note lg = rows16_length [OF rows16_glide [OF assms]]
  note lt = rows16_length [OF assms]
  show "rules_packed (glide t) ! i = glide (rules_packed t) ! i"
  proof (rule bit_eqI)
    fix j
    show "bit (rules_packed (glide t) ! i) j = bit (glide (rules_packed t) ! i) j"
    proof (cases "j < 16")
      case True
      then have j': "(j + 1) mod 16 < 16" by simp
      have "bit (rules_packed (glide t) ! i) j =
          life (bit (t ! ((i + 1) mod 16)) ((j + 1) mod 16))
            (total_cnt t ((i + 1) mod 16) ((j + 1) mod 16))"
        by (simp only: rules_packed_bit [OF lg i] True if_True bit_glide [OF assms i]
            total_cnt_glide [OF assms i True] simp_thms)
      also have "\<dots> = bit (glide (rules_packed t) ! i) j"
        by (simp only: bit_glide [OF rows16_rules_packed [OF assms] i] True
            rules_packed_bit [OF lt i'] j' if_True simp_thms)
      finally show ?thesis .
    next
      case False
      then show ?thesis
        by (simp add: rules_packed_bit [OF lg i] bit_glide [OF assms i]
            bit_glide [OF rows16_rules_packed [OF assms] i])
    qed
  qed
qed

lemma rows16_gen: "rows16 (gen k)"
  by (induction k) (simp_all add: gen_def rows16_pack wf_p1 rows16_rules_packed)

lemma gen_Suc: "gen (Suc k) = rules_packed (gen k)"
  by (simp add: gen_def)

lemma gen_add: "gen (k + j) = (rules_packed ^^ k) (gen j)"
  by (simp add: gen_def funpow_add)

lemma funpow_rules_glide:
  "rows16 t \<Longrightarrow> (rules_packed ^^ k) (glide t) = glide ((rules_packed ^^ k) t)"
proof (induction k)
  case 0
  then show ?case by simp
next
  case (Suc k)
  have "rows16 ((rules_packed ^^ k) t)"
    using Suc.prems by (induction k) (simp_all add: rows16_rules_packed)
  then show ?case
    using Suc by (simp add: rules_packed_glide)
qed


section \<open>The glider of page 1\<close>

lemma gen_0: "gen 0 = [0, 0, 0, 14336, 2048, 4096, 0, 0, 0, 0, 0, 0, 0, 0, 0, 0]"
  by (simp add: gen_def pack_def dims upt_16 p1_def pack_row_def)

lemma glider_step1:
  "rules_packed [0, 0, 0, 14336, 2048, 4096, 0, 0, 0, 0, 0, 0, 0, 0, 0, 0]
     = [0, 0, 4096, 6144, 10240, 0, 0, 0, 0, 0, 0, 0, 0, 0, 0, 0]"
  unfolding rules_packed_rows
  by (simp add: rules_row_dead rules_row_live)

lemma glider_step2:
  "rules_packed [0, 0, 4096, 6144, 10240, 0, 0, 0, 0, 0, 0, 0, 0, 0, 0, 0]
     = [0, 0, 6144, 10240, 2048, 0, 0, 0, 0, 0, 0, 0, 0, 0, 0, 0]"
  unfolding rules_packed_rows
  by (simp add: rules_row_dead rules_row_live)

lemma glider_step3:
  "rules_packed [0, 0, 6144, 10240, 2048, 0, 0, 0, 0, 0, 0, 0, 0, 0, 0, 0]
     = [0, 0, 6144, 3072, 4096, 0, 0, 0, 0, 0, 0, 0, 0, 0, 0, 0]"
  unfolding rules_packed_rows
  by (simp add: rules_row_dead rules_row_live)

lemma glider_step4:
  "rules_packed [0, 0, 6144, 3072, 4096, 0, 0, 0, 0, 0, 0, 0, 0, 0, 0, 0]
     = [0, 0, 7168, 1024, 2048, 0, 0, 0, 0, 0, 0, 0, 0, 0, 0, 0]"
  unfolding rules_packed_rows
  by (simp add: rules_row_dead rules_row_live)

lemma gen_1: "gen 1 = [0, 0, 4096, 6144, 10240, 0, 0, 0, 0, 0, 0, 0, 0, 0, 0, 0]"
  using gen_Suc [of 0] by (simp add: gen_0 glider_step1)

lemma gen_numeral: "gen 2 = rules_packed (gen 1)" "gen 3 = rules_packed (gen 2)"
  "gen 4 = rules_packed (gen 3)"
  by (simp_all add: gen_def eval_nat_numeral)

lemma gen_2: "gen 2 = [0, 0, 6144, 10240, 2048, 0, 0, 0, 0, 0, 0, 0, 0, 0, 0, 0]"
  by (simp only: gen_numeral(1) gen_1 glider_step2)

lemma gen_3: "gen 3 = [0, 0, 6144, 3072, 4096, 0, 0, 0, 0, 0, 0, 0, 0, 0, 0, 0]"
  by (simp only: gen_numeral(2) gen_2 glider_step3)

lemma gen_4: "gen 4 = [0, 0, 7168, 1024, 2048, 0, 0, 0, 0, 0, 0, 0, 0, 0, 0, 0]"
  by (simp only: gen_numeral(3) gen_3 glider_step4)

lemma glide_gen_0: "glide (gen 0) = gen 4"
  by (simp add: gen_0 gen_4 glide_def ror16_def)

lemma gen_period4: "gen (k + 4) = glide (gen k)"
proof -
  have "gen (k + 4) = (rules_packed ^^ k) (glide (gen 0))"
    by (simp add: gen_add glide_gen_0)
  also have "\<dots> = glide ((rules_packed ^^ k) (gen 0))"
    by (rule funpow_rules_glide) (rule rows16_gen)
  also have "\<dots> = glide (gen k)"
    using gen_add [of k 0] by simp
  finally show ?thesis .
qed

lemma gen_5: "gen 5 = [0, 2048, 3072, 5120, 0, 0, 0, 0, 0, 0, 0, 0, 0, 0, 0, 0]"
  using gen_period4 [of 1] by (simp add: gen_1 [unfolded One_nat_def] glide_def ror16_def)

lemma gen_6: "gen 6 = [0, 3072, 5120, 1024, 0, 0, 0, 0, 0, 0, 0, 0, 0, 0, 0, 0]"
  using gen_period4 [of 2] by (simp add: gen_2 glide_def ror16_def)


lemma glide_inj:
  assumes "rows16 t" "rows16 t'" "glide t = glide t'"
  shows "t = t'"
proof (rule nth_equalityI)
  show "length t = length t'"
    using assms by (simp add: rows16_length)
next
  fix i assume "i < length t"
  then have i: "i < 16" using assms(1) by (simp add: rows16_length)
  have i0: "(i + 15) mod 16 < 16" by simp
  show "t ! i = t' ! i"
  proof (rule bit_eqI)
    fix k
    show "bit (t ! i) k = bit (t' ! i) k"
    proof (cases "k < 16")
      case True
      have k0: "(k + 15) mod 16 < 16" by simp
      have "bit (glide t ! ((i + 15) mod 16)) ((k + 15) mod 16) =
            bit (glide t' ! ((i + 15) mod 16)) ((k + 15) mod 16)"
        using assms(3) by simp
      then show ?thesis
        by (simp only: bit_glide [OF assms(1) i0] bit_glide [OF assms(2) i0] k0
            wrap16 [OF i] wrap16 [OF True] simp_thms)
    next
      case False
      then show ?thesis
        using rows16_bits [OF assms(1) i, of k] rows16_bits [OF assms(2) i, of k] by blast
    qed
  qed
qed

lemma rows16_glide_pow: "rows16 t \<Longrightarrow> rows16 ((glide ^^ j) t)"
  by (induction j) (simp_all add: rows16_glide)

lemma bit_glide_pow:
  assumes "rows16 t"
  shows "i < 16 \<Longrightarrow>
    bit ((glide ^^ j) t ! i) k = (k < 16 \<and> bit (t ! ((i + j) mod 16)) ((k + j) mod 16))"
proof (induction j arbitrary: i k)
  case 0
  then show ?case using rows16_bits [OF assms, of i k] by auto
next
  case (Suc j)
  have i': "(i + 1) mod 16 < 16" by simp
  have e: "((i + 1) mod 16 + j) mod 16 = (i + Suc j) mod 16"
    "((k + 1) mod 16 + j) mod 16 = (k + Suc j) mod 16"
    by (simp_all add: mod_simps)
  have "bit ((glide ^^ Suc j) t ! i) k =
      (k < 16 \<and> bit ((glide ^^ j) t ! ((i + 1) mod 16)) ((k + 1) mod 16))"
    using bit_glide [OF rows16_glide_pow [OF assms, of j] Suc.prems] by simp
  also have "\<dots> = (k < 16 \<and> bit (t ! ((i + Suc j) mod 16)) ((k + Suc j) mod 16))"
    by (simp only: Suc.IH [OF i'] e) simp
  finally show ?case .
qed

lemma glide_16:
  assumes "rows16 t"
  shows "(glide ^^ 16) t = t"
proof (rule nth_equalityI)
  show "length ((glide ^^ 16) t) = length t"
    using rows16_glide_pow [OF assms, of 16] assms by (simp add: rows16_length)
next
  fix i assume "i < length ((glide ^^ 16) t)"
  then have i: "i < 16"
    using rows16_glide_pow [OF assms, of 16] by (simp add: rows16_length)
  show "(glide ^^ 16) t ! i = t ! i"
  proof (rule bit_eqI)
    fix k
    show "bit ((glide ^^ 16) t ! i) k = bit (t ! i) k"
      using rows16_bits [OF assms i, of k] i
      by (auto simp add: bit_glide_pow [OF assms i])
  qed
qed

lemma gen_glide_pow: "gen (k + 4 * j) = (glide ^^ j) (gen k)"
proof (induction j)
  case 0
  then show ?case by simp
next
  case (Suc j)
  have "k + 4 * Suc j = (k + 4 * j) + 4" by simp
  then have "gen (k + 4 * Suc j) = gen ((k + 4 * j) + 4)" by (rule arg_cong)
  also have "\<dots> = glide (gen (k + 4 * j))" by (rule gen_period4)
  finally show ?case using Suc by simp
qed

lemma gen_period64: "gen (k + 64) = gen k"
  using gen_glide_pow [of k 16] glide_16 [OF rows16_gen, of k] by simp

lemma induct_by_fours:
  assumes "P 0" "P 1" "P 2" "P (3::nat)" "\<And>k. P k \<Longrightarrow> P (k + 4)"
  shows "P k"
proof (induction k rule: less_induct)
  case (less k)
  show ?case
  proof (cases "k < 4")
    case True
    then have "k = 0 \<or> k = 1 \<or> k = 2 \<or> k = 3" by linarith
    then show ?thesis using assms(1-4) by blast
  next
    case False
    then have "k - 4 < k" "k = (k - 4) + 4" by simp_all
    then show ?thesis using less.IH [of "k - 4"] assms(5) [of "k - 4"] by simp
  qed
qed

lemma small_sums:
  "0 + 1 = (1::nat)" "0 + 2 = (2::nat)" "0 + 3 = (3::nat)"
  "1 + 1 = (2::nat)" "1 + 2 = (3::nat)" "1 + 3 = (4::nat)"
  "2 + 1 = (3::nat)" "2 + 2 = (4::nat)" "2 + 3 = (5::nat)"
  "3 + 1 = (4::nat)" "3 + 2 = (5::nat)" "3 + 3 = (6::nat)"
  by simp_all

lemma gen_distinct:
  "gen (k + 1) \<noteq> gen k \<and> gen (k + 2) \<noteq> gen k \<and> gen (k + 3) \<noteq> gen k"
proof (induction k rule: induct_by_fours)
  case 1
  show ?case by (simp only: small_sums gen_0 gen_1 gen_2 gen_3) simp
next
  case 2
  show ?case by (simp only: small_sums gen_1 gen_2 gen_3 gen_4) simp
next
  case 3
  show ?case by (simp only: small_sums gen_2 gen_3 gen_4 gen_5) simp
next
  case 4
  show ?case by (simp only: small_sums gen_3 gen_4 gen_5 gen_6) simp
next
  case (5 k)
  have e: "gen (k + 4 + j) = glide (gen (k + j))" for j
    using gen_period4 [of "k + j"] by (simp add: ac_simps)
  have inj: "glide (gen (k + j)) \<noteq> glide (gen k)" if "gen (k + j) \<noteq> gen k" for j
    using that glide_inj [OF rows16_gen rows16_gen] by blast
  from 5 have d: "gen (k + 1) \<noteq> gen k" "gen (k + 2) \<noteq> gen k" "gen (k + 3) \<noteq> gen k"
    by blast+
  show ?case
    unfolding e gen_period4 using inj [OF d(1)] inj [OF d(2)] inj [OF d(3)] by blast
qed

lemma gen_nonzero: "gen k \<noteq> zero_packed"
proof
  assume z: "gen k = zero_packed"
  then have "gen (k + 1) = gen k"
    by (simp add: gen_Suc rules_packed_zero)
  then show False using gen_distinct [of k] by simp
qed


section \<open>The glider and the 64-generation checkpoint\<close>

lemma smod64_nonneg: "0 \<le> (v::int) \<Longrightarrow> v smod 64 = v mod 64"
  by (cases "v = 0") (simp_all add: smod_int_alt_def)

lemma setup_sketch_facts:
  "\<not> periodic (setup_sketch t0)" "g (setup_sketch t0) = 0" "a (setup_sketch t0) = p1"
  "r1 (setup_sketch t0) = zero_packed" "r2 (setup_sketch t0) = zero_packed"
  "r3 (setup_sketch t0) = zero_packed" "r64 (setup_sketch t0) = zero_packed"
  by (simp_all add: setup_sketch_def globals_def)

lemma unpack_gen_0: "unpack (gen 0) = p1"
  by (simp add: gen_def unpack_pack wf_p1)

lemma glider_run_inv:
  "k < 128 \<Longrightarrow>
   \<not> periodic (run now rando k (setup_sketch t0)) \<and>
   g (run now rando k (setup_sketch t0)) = int k \<and>
   a (run now rando k (setup_sketch t0)) = unpack (gen k) \<and>
   (r1 (run now rando k (setup_sketch t0)) = zero_packed \<or>
    r1 (run now rando k (setup_sketch t0)) = gen k) \<and>
   (r2 (run now rando k (setup_sketch t0)) = zero_packed \<or>
    1 \<le> k \<and> r2 (run now rando k (setup_sketch t0)) = gen (k - 1)) \<and>
   (r3 (run now rando k (setup_sketch t0)) = zero_packed \<or>
    2 \<le> k \<and> r3 (run now rando k (setup_sketch t0)) = gen (k - 2)) \<and>
   r64 (run now rando k (setup_sketch t0)) = (if k < 64 then zero_packed else gen 64)"
proof (induction k)
  case 0
  then show ?case by (simp add: setup_sketch_facts unpack_gen_0)
next
  case (Suc k)
  define st where "st = run now rando k (setup_sketch t0)"
  define st' where "st' = tick (now k) (rando k) st"
  have run': "run now rando (Suc k) (setup_sketch t0) = st'"
    by (simp add: st'_def st_def)
  from Suc have k: "k < 127" by simp
  with Suc.IH have u: "\<not> periodic st" and gk: "g st = int k" and ak: "a st = unpack (gen k)"
    and h1: "r1 st = zero_packed \<or> r1 st = gen k"
    and h2: "r2 st = zero_packed \<or> 1 \<le> k \<and> r2 st = gen (k - 1)"
    and h3: "r3 st = zero_packed \<or> 2 \<le> k \<and> r3 st = gen (k - 2)"
    and h64: "r64 st = (if k < 64 then zero_packed else gen 64)"
    unfolding st_def by simp_all
  note o = tick_observe [OF u, of "now k" "rando k", folded st'_def]
  have len: "length (gen k) = 16" "length (gen (Suc k)) = 16"
    by (simp_all add: rows16_length rows16_gen)
  have new_a: "rules_grid (a st) = unpack (gen (Suc k))"
    by (simp add: ak rules_grid_def pack_unpack len gen_Suc)
  have new_p: "pack (rules_grid (a st)) = gen (Suc k)"
    by (simp add: new_a pack_unpack len)
  have sm: "(g st + 1) smod 64 = 0 \<longleftrightarrow> Suc k = 64"
  proof -
    have "g st + 1 = int (Suc k)" by (simp add: gk)
    then have "(g st + 1) smod 64 = int (Suc k) mod 64"
      by (simp only: smod64_nonneg [OF of_nat_0_le_iff])
    also have "\<dots> = int (Suc k mod 64)" by (simp add: zmod_int)
    finally have "(g st + 1) smod 64 = 0 \<longleftrightarrow> Suc k mod 64 = 0" by simp
    moreover have "Suc k mod 64 = 0 \<longleftrightarrow> Suc k = 64"
    proof (cases "Suc k < 64")
      case True
      then show ?thesis by simp
    next
      case False
      with k have "Suc k = (Suc k - 64) + 64" "Suc k - 64 < 64" by simp_all
      then have "Suc k mod 64 = Suc k - 64"
        by (metis mod_add_self2 mod_less)
      then show ?thesis using False by auto
    qed
    ultimately show ?thesis by simp
  qed
  have n0: "gen (Suc k) \<noteq> zero_packed" by (rule gen_nonzero)
  have n1: "gen (Suc k) \<noteq> gen k" using gen_distinct [of k] by simp
  have n2: "gen (Suc k) \<noteq> gen (k - 1)" if "1 \<le> k"
  proof -
    from that have "k - 1 + 2 = Suc k" by simp
    then show ?thesis using gen_distinct [of "k - 1"] by simp
  qed
  have n3: "gen (Suc k) \<noteq> gen (k - 2)" if "2 \<le> k"
  proof -
    from that have "k - 2 + 3 = Suc k" by simp
    then show ?thesis using gen_distinct [of "k - 2"] by simp
  qed
  have n64: "gen (Suc k) \<noteq> r64 st" if "Suc k = 64"
    using that h64 n0 by simp
  have flag: "\<not> periodic st'"
    unfolding o(8) new_p using h1 h2 h3 n0 n1 n2 n3 n64 sm by auto
  have c64: "r64 st' = (if Suc k < 64 then zero_packed else gen 64)"
    unfolding o(7) new_p using h64 sm by auto
  show ?case
    unfolding run'
    using flag c64 h1 h2 o(1,2,3,4,5) new_a new_p gk by auto
qed

lemma glider_gen_128: "gen 128 = gen 64" "gen 64 = gen 0"
  using gen_period64 [of 64] gen_period64 [of 0] by simp_all

lemma glider_run_128: "periodic (run now rando 128 (setup_sketch t0))"
proof -
  define st where "st = run now rando 127 (setup_sketch t0)"
  have run': "run now rando 128 (setup_sketch t0) = tick (now 127) (rando 127) st"
    using run.simps(2) [of now rando 127 "setup_sketch t0"] by (simp add: st_def)
  have inv: "\<not> periodic st" "g st = 127" "a st = unpack (gen 127)" "r64 st = gen 64"
    using glider_run_inv [of 127 now rando t0] by (simp_all add: st_def)
  have len: "length (gen 127) = 16" "length (gen 128) = 16"
    by (simp_all add: rows16_length rows16_gen)
  have "gen 128 = rules_packed (gen 127)"
    using gen_Suc [of 127] by simp
  then have "pack (rules_grid (a st)) = gen 128"
    by (simp add: inv(3) rules_grid_def pack_unpack len rules_packed_length)
  moreover have "(g st + 1) smod 64 = 0"
    by (simp add: inv(2) smod64_nonneg)
  ultimately show ?thesis
    unfolding run' tick_observe(8) [OF inv(1)] by (simp add: inv(4) glider_gen_128)
qed

lemma glider_run_64:
  "a (run now rando 64 (setup_sketch t0)) = p1"
  "g (run now rando 64 (setup_sketch t0)) = 64"
  "r64 (run now rando 64 (setup_sketch t0)) = pack p1"
  "r64 (run now rando 63 (setup_sketch t0)) = zero_packed"
  using glider_run_inv [of 64 now rando t0] glider_run_inv [of 63 now rando t0]
  by (simp_all add: glider_gen_128 unpack_gen_0) (simp add: gen_def)


text \<open>
  Claim C2 as stated fails: the glider seeded by \<^verbatim>\<open>setup\<close> at generation 0 is back at its
  starting bit pattern at generation 64, and the settled flag is not set there.
\<close>

theorem glider_not_flagged_at_64_counterexample:
  "a (run clock no_random 64 (setup_sketch 0)) = a (setup_sketch 0) \<and>
   g (setup_sketch 0) = 0 \<and> g (run clock no_random 64 (setup_sketch 0)) = 64 \<and>
   \<not> periodic (run clock no_random 64 (setup_sketch 0))"
  using glider_run_inv [of 64 clock no_random 0]
  by (simp add: glider_run_64 setup_sketch_facts)

text \<open>
  Claim C2, amended. After \<^verbatim>\<open>setup\<close> has seeded the glider with the generation counter
  at 0, 64 simulation steps bring the grid back to its bit pattern of generation 0, but
  the flag is not set at generation 64 nor at any generation before 128: the seed is
  never recorded, the checkpoint \<^verbatim>\<open>r64\<close> is still all zero at the check of generation 64,
  which then stores the grid of generation 64 in it. The flag is set at generation 128.
  In general, with the flag clear at a generation that is a multiple of 64, the check
  sets the flag exactly when the new grid equals the checkpoint or one of the three
  older ring entries.
\<close>

theorem glider_flagged_at_128:
  "a (run now rando 64 (setup_sketch t0)) = a (setup_sketch t0) \<and>
   g (run now rando 64 (setup_sketch t0)) = 64 \<and>
   (\<forall>k<128. \<not> periodic (run now rando k (setup_sketch t0))) \<and>
   r64 (run now rando 63 (setup_sketch t0)) = zero_packed \<and>
   r64 (run now rando 64 (setup_sketch t0)) = pack (a (run now rando 64 (setup_sketch t0))) \<and>
   periodic (run now rando 128 (setup_sketch t0)) \<and>
   (\<forall>st. \<not> periodic st \<and> g st smod 64 = 0 \<longrightarrow>
      (periodic (checkPeriodic st) \<longleftrightarrow>
         pack (a st) = r64 st \<or> pack (a st) = r1 st \<or> pack (a st) = r2 st \<or>
         pack (a st) = r3 st))"
proof -
  have "\<forall>k<128. \<not> periodic (run now rando k (setup_sketch t0))"
    using glider_run_inv [of _ now rando t0] by blast
  moreover have "\<forall>st. \<not> periodic st \<and> g st smod 64 = 0 \<longrightarrow>
      (periodic (checkPeriodic st) \<longleftrightarrow>
         pack (a st) = r64 st \<or> pack (a st) = r1 st \<or> pack (a st) = r2 st \<or>
         pack (a st) = r3 st)"
    by (auto simp add: checkPeriodic_periodic)
  ultimately show ?thesis
    using glider_run_128 [of now rando t0]
    by (simp add: glider_run_64 setup_sketch_facts)
qed

text \<open>
  The amended claim for steps 100 ms apart, and the check at generation 64 for the
  all-dead grid, which does equal the all-zero checkpoint.
\<close>

theorem glider_flagged_at_128_witness:
  "\<not> periodic (run clock no_random 127 (setup_sketch 0)) \<and>
   periodic (run clock no_random 128 (setup_sketch 0)) \<and>
   \<not> periodic (rules (globals\<lparr>g := 63\<rparr>)) \<and> g (rules (globals\<lparr>g := 63\<rparr>)) smod 64 = 0 \<and>
   periodic (checkPeriodic (rules (globals\<lparr>g := 63\<rparr>)))"
proof -
  note T = glider_flagged_at_128 [of clock no_random 0]
  have k: "(127::nat) < 128" by simp
  have f: "\<not> periodic (rules (globals\<lparr>g := 63\<rparr>))" "g (rules (globals\<lparr>g := 63\<rparr>)) smod 64 = 0"
    by (simp_all add: rules_detector g_rules globals_def smod64_nonneg)
  have z: "pack (a (rules (globals\<lparr>g := 63\<rparr>))) = zero_packed"
    by (simp add: a_rules globals_def rules_grid_zero pack_zero)
  have r: "r64 (rules (globals\<lparr>g := 63\<rparr>)) = zero_packed" "r1 (rules (globals\<lparr>g := 63\<rparr>)) = zero_packed"
    by (simp_all add: rules_detector globals_def)
  show ?thesis
    using T [THEN conjunct2, THEN conjunct2, THEN conjunct1, rule_format, OF k]
      T [THEN conjunct2, THEN conjunct2, THEN conjunct2, THEN conjunct2, THEN conjunct2,
         THEN conjunct1]
      T [THEN conjunct2, THEN conjunct2, THEN conjunct2, THEN conjunct2, THEN conjunct2,
         THEN conjunct2, rule_format, of "rules (globals\<lparr>g := 63\<rparr>)"] f z r
    by simp
qed

end
